theory Spec2Isabelle
  imports Main "HOL-Library.Word" "HOL-Library.Signed_Division"
begin

unbundle bit_operations_syntax

section \<open>The generator (glflake.go)\<close>

subsection \<open>Machine integers\<close>

text \<open>
  Go's \<open>int64\<close> and \<open>uint16\<close> are words: \<open>+\<close>, \<open>-\<close> and \<open>*\<close> wrap around.
  Comparison of \<open>int64\<close> values is signed (\<open><s\<close>, \<open>\<le>s\<close>). Go's \<open>/\<close> and \<open>%\<close> on
  \<open>int64\<close> truncate towards zero; they are written out over \<open>sint\<close>.
\<close>

type_synonym int64 = "64 word"
type_synonym uint16 = "16 word"
type_synonym ID = int64

definition div64 :: "int64 \<Rightarrow> int64 \<Rightarrow> int64" where
  "div64 a b = word_of_int (sint a sdiv sint b)"

definition rem64 :: "int64 \<Rightarrow> int64 \<Rightarrow> int64" where
  "rem64 a b = word_of_int (sint a smod sint b)"

subsection \<open>Constants\<close>

definition BitLenTime :: nat where "BitLenTime = 39"
definition BitLenMachineID :: nat where "BitLenMachineID = 16"
definition BitLenSequence :: nat where "BitLenSequence = 8"

text \<open>\<open>glflakeTimeUnit = 1e7\<close> nanoseconds, i.e. 10 msec.\<close>

definition glflakeTimeUnit :: int64 where "glflakeTimeUnit = 10000000"

text \<open>
  A \<open>time.Time\<close> is an instant: the number of nanoseconds since the Unix epoch, an
  unbounded integer (the type covers years far outside the range of an \<open>int64\<close> count of
  nanoseconds). \<open>After\<close> compares instants. \<open>UnixNano()\<close> returns the count as an
  \<open>int64\<close>, wrapped around for an instant before 1678 or after 2262. The zero
  \<open>time.Time\<close>, for which \<open>IsZero()\<close> holds, is January 1, year 1, 00:00:00 UTC.
  \<open>defaultStartTime\<close> is \<open>time.Date(2021, 10, 1, 0, 0, 0, 0, time.UTC)\<close>.
\<close>

type_synonym Time = int

definition After :: "Time \<Rightarrow> Time \<Rightarrow> bool" where
  "After t u \<longleftrightarrow> u < t"

definition UnixNano :: "Time \<Rightarrow> int64" where
  "UnixNano t = word_of_int t"

definition zeroTime :: Time where
  "zeroTime = - 62135596800000000000"

definition IsZero :: "Time \<Rightarrow> bool" where
  "IsZero t \<longleftrightarrow> t = zeroTime"

definition defaultStartTime :: Time where
  "defaultStartTime = 1633046400000000000"

subsection \<open>Settings and the generator's state\<close>

datatype error = MachineIDError | OverTimeLimit

record Settings =
  StartTime :: Time
  MachineID :: "(unit \<Rightarrow> error + uint16) option"
  CheckMachineID :: "(uint16 \<Rightarrow> bool) option"

text \<open>The struct \<open>glflake\<close>; its mutex serialises the calls and is not part of the state.\<close>

record glflake =
  startTime :: int64
  elapsedTime :: int64
  machineID :: uint16
  sequence :: uint16

text \<open>
  \<open>toGlflakeTime\<close> reads its argument through \<open>t.UTC().UnixNano()\<close> only; it is given
  that \<open>int64\<close> reading.
\<close>

definition toGlflakeTime :: "int64 \<Rightarrow> int64" where
  "toGlflakeTime t = div64 t glflakeTimeUnit"

text \<open>
  \<open>NewGlflake st now lower16\<close>: \<open>now\<close> is the instant that \<open>time.Now()\<close> returns;
  \<open>lower16\<close> is the result of \<open>lower16BitPrivateIP()\<close>, which reads the host's network
  interfaces and is taken as an input. \<open>None\<close> is the \<open>nil\<close> result.
\<close>

definition NewGlflake :: "Settings \<Rightarrow> Time \<Rightarrow> (error + uint16) \<Rightarrow> glflake option" where
  "NewGlflake st now lower16 =
    (if After (StartTime st) now then None
     else
       let start = (if IsZero (StartTime st)
                    then toGlflakeTime (UnixNano defaultStartTime)
                    else toGlflakeTime (UnixNano (StartTime st)));
           res = (case MachineID st of None \<Rightarrow> lower16 | Some f \<Rightarrow> f ())
       in case res of
            Inl err \<Rightarrow> None
          | Inr mid \<Rightarrow>
              (case CheckMachineID st of
                 None \<Rightarrow> Some \<lparr>startTime = start, elapsedTime = 0, machineID = mid,
                               sequence = 2 ^ BitLenSequence - 1\<rparr>
               | Some chk \<Rightarrow>
                   if \<not> chk mid then None
                   else Some \<lparr>startTime = start, elapsedTime = 0, machineID = mid,
                              sequence = 2 ^ BitLenSequence - 1\<rparr>))"

definition currentElapsedTime :: "int64 \<Rightarrow> int64 \<Rightarrow> int64" where
  "currentElapsedTime now start = toGlflakeTime now - start"

text \<open>
  \<open>sleepTime overtime now\<close> is a \<open>time.Duration\<close>, an \<open>int64\<close> count of nanoseconds;
  \<open>now\<close> is the \<open>UnixNano()\<close> reading of the \<open>time.Now()\<close> taken inside \<open>sleepTime\<close>.
\<close>

definition sleepTime :: "int64 \<Rightarrow> int64 \<Rightarrow> int64" where
  "sleepTime overtime now = overtime * 10 * 1000000 - rem64 now glflakeTimeUnit * 1"

definition maskSequence :: uint16 where
  "maskSequence = 2 ^ BitLenSequence - 1"

definition toID :: "glflake \<Rightarrow> error + ID" where
  "toID gf =
    (if 2 ^ BitLenTime \<le>s elapsedTime gf then Inl OverTimeLimit
     else Inr (push_bit (BitLenMachineID + BitLenSequence) (elapsedTime gf)
               OR push_bit BitLenSequence (ucast (machineID gf))
               OR ucast (sequence gf)))"

text \<open>
  The body of \<open>NextID\<close> before its \<open>return\<close>: the update of the state under the lock.
  \<open>now\<close> is the \<open>UnixNano()\<close> reading of the clock in \<open>currentElapsedTime\<close>, \<open>now'\<close>
  the later one in \<open>sleepTime\<close> (read only when the sequence wraps). The second component is the
  duration handed to \<open>time.Sleep\<close>, \<open>None\<close> when the call does not sleep.
\<close>

definition advance :: "glflake \<Rightarrow> int64 \<Rightarrow> int64 \<Rightarrow> glflake \<times> int64 option" where
  "advance gf now now' =
    (let current = currentElapsedTime now (startTime gf) in
     if elapsedTime gf <s current
     then (gf\<lparr>elapsedTime := current, sequence := 0\<rparr>, None)
     else
       let gf1 = gf\<lparr>sequence := (sequence gf + 1) AND maskSequence\<rparr> in
       if sequence gf1 = 0
       then
         let gf2 = gf1\<lparr>elapsedTime := elapsedTime gf1 + 1\<rparr>;
             overtime = elapsedTime gf2 - current
         in (gf2, Some (sleepTime overtime now'))
       else (gf1, None))"

text \<open>\<open>NextID\<close>: the new state, the sleep it made, and the returned \<open>(ID, error)\<close>.\<close>

definition NextID :: "glflake \<Rightarrow> int64 \<Rightarrow> int64 \<Rightarrow> glflake \<times> int64 option \<times> (error + ID)" where
  "NextID gf now now' =
    (let (gf', slept) = advance gf now now' in (gf', slept, toID gf'))"

text \<open>
  \<open>Decompose\<close> returns a \<open>map[string]int64\<close>. \<open>>>\<close> on \<open>int64\<close> is the arithmetic shift.
\<close>

definition Decompose :: "ID \<Rightarrow> (string \<rightharpoonup> int64)" where
  "Decompose x =
    (let maskMachineID = push_bit BitLenSequence (2 ^ BitLenMachineID - 1) :: int64;
         maskSeq = 2 ^ BitLenSequence - 1 :: int64;
         msb = signed_drop_bit 63 x;
         time = signed_drop_bit (BitLenMachineID + BitLenSequence) x;
         mid = signed_drop_bit BitLenSequence (x AND maskMachineID);
         sq = x AND maskSeq
     in [''id'' \<mapsto> x, ''msb'' \<mapsto> msb, ''time'' \<mapsto> time,
         ''machine-id'' \<mapsto> mid, ''sequence'' \<mapsto> sq])"

text \<open>
  The packing formula of the specification, \<open>time<<24 | machine-id<<8 | sequence\<close>, read
  off a map of parts. \<open>OR\<close> associates to the right here; it is associative.
\<close>

definition pack_parts :: "(string \<rightharpoonup> int64) \<Rightarrow> int64 option" where
  "pack_parts parts =
    (case (parts ''time'', parts ''machine-id'', parts ''sequence'') of
       (Some t, Some m, Some s) \<Rightarrow> Some (push_bit 24 t OR push_bit 8 m OR s)
     | _ \<Rightarrow> None)"

subsection \<open>Runs of the generator\<close>

text \<open>
  One pair of clock readings per call. \<open>NextID_run gf cs\<close> makes the calls one after the
  other on the same instance and lists what each returned; \<open>state_after gf cs\<close> is the
  instance after those calls; \<open>IDs_of\<close> keeps the IDs of the successful calls, in the
  order of emission.
\<close>

fun NextID_run ::
  "glflake \<Rightarrow> (int64 \<times> int64) list \<Rightarrow> (glflake \<times> int64 option \<times> (error + ID)) list" where
  "NextID_run gf [] = []"
| "NextID_run gf ((now, now') # cs) =
     (let r = NextID gf now now' in r # NextID_run (fst r) cs)"

fun state_after :: "glflake \<Rightarrow> (int64 \<times> int64) list \<Rightarrow> glflake" where
  "state_after gf [] = gf"
| "state_after gf ((now, now') # cs) = state_after (fst (NextID gf now now')) cs"

fun IDs_of :: "(glflake \<times> int64 option \<times> (error + ID)) list \<Rightarrow> ID list" where
  "IDs_of [] = []"
| "IDs_of ((gf, slept, Inl err) # rs) = IDs_of rs"
| "IDs_of ((gf, slept, Inr x) # rs) = x # IDs_of rs"

text \<open>The lexicographic order on (elapsed tick, sequence).\<close>

definition tick_seq_less :: "glflake \<Rightarrow> glflake \<Rightarrow> bool" where
  "tick_seq_less a b \<longleftrightarrow>
     elapsedTime a <s elapsedTime b
     \<or> (elapsedTime a = elapsedTime b \<and> sequence a < sequence b)"

text \<open>
  The integer that the fields of an instance pack to when nothing overflows, and the
  bounds that hold of an instance \<open>n\<close> calls after its construction: a start time that
  came out of \<open>toGlflakeTime\<close>, and an elapsed tick that the clock or \<open>n\<close> increments
  can have reached.
\<close>

definition id_value :: "glflake \<Rightarrow> int" where
  "id_value gf =
     sint (elapsedTime gf) * 2 ^ 24 + uint (machineID gf) * 2 ^ 8 + uint (sequence gf)"

definition gf_bounded :: "int \<Rightarrow> glflake \<Rightarrow> bool" where
  "gf_bounded n gf \<longleftrightarrow>
     0 \<le> sint (elapsedTime gf) \<and> sint (elapsedTime gf) \<le> 2 ^ 41 + n
     \<and> sequence gf \<le> 255
     \<and> - 922337203685 \<le> sint (startTime gf) \<and> sint (startTime gf) \<le> 922337203685"

section \<open>The codecs (id.go)\<close>

text \<open>
  id.go, which defines the type \<open>ID\<close> with its encoders and parsers, is not part of
  the verified sources; its tests (id_test.go) are. The codecs are modelled from the
  specification, sections 4.2 and 7, and checked against the vectors of the tests.
  Text and byte slices are \<open>string\<close>s (lists of 8-bit characters).
\<close>

text \<open>
  Modelled from the spec: id.go is missing. The error values of section 7. \<open>ParseError\<close> carries the input
  that a decoder rejected, \<open>JSONSyntaxError\<close> the offending raw bytes.
\<close>

datatype codec_error = ParseError string | JSONSyntaxError string

subsection \<open>Positional notation over an alphabet table\<close>

text \<open>
  Modelled from the spec: id.go is missing. "digits mapped via fixed alphabet table". \<open>lsd_digits b n\<close> are
  the digits of \<open>n\<close> in base \<open>b\<close>, least significant first; \<open>encode_base\<close> maps them
  through the table, most significant first.
\<close>

function lsd_digits :: "nat \<Rightarrow> nat \<Rightarrow> nat list" where
  "lsd_digits b n = (if b < 2 \<or> n < b then [n] else (n mod b) # lsd_digits b (n div b))"
  by pat_completeness auto
termination
  by (relation "measure snd") auto

declare lsd_digits.simps [simp del]

text \<open>
  Modelled from the spec: id.go is missing. The encoder of a positional notation: the digits of the
  number, most significant first, each mapped through the alphabet table.
\<close>

definition encode_base :: "string \<Rightarrow> nat \<Rightarrow> string" where
  "encode_base alphabet n = rev (map (\<lambda>d. alphabet ! d) (lsd_digits (length alphabet) n))"

text \<open>
  Modelled from the spec: id.go is missing. A decoder "fails with ParseError on characters outside
  alphabet". \<open>index_of\<close> is the decode table: the position of a character in the
  alphabet, \<open>None\<close> for a character outside it.
\<close>

fun index_of :: "'a list \<Rightarrow> 'a \<Rightarrow> nat option" where
  "index_of [] c = None"
| "index_of (x # xs) c = (if x = c then Some 0 else map_option Suc (index_of xs c))"

text \<open>
  Modelled from the spec: id.go is missing. The digit values of a text, read through the decode table;
  \<open>None\<close> when a character is outside the alphabet.
\<close>

fun digit_values :: "string \<Rightarrow> string \<Rightarrow> nat list option" where
  "digit_values alphabet [] = Some []"
| "digit_values alphabet (c # cs) =
     (case index_of alphabet c of
        None \<Rightarrow> None
      | Some d \<Rightarrow> map_option ((#) d) (digit_values alphabet cs))"

text \<open>
  Modelled from the spec: id.go is missing. The number that a text denotes in the base of the alphabet,
  most significant digit first; \<open>None\<close> on "characters outside alphabet".
\<close>

definition decode_base :: "string \<Rightarrow> string \<Rightarrow> nat option" where
  "decode_base alphabet s =
     map_option (foldl (\<lambda>v d. v * length alphabet + d) 0) (digit_values alphabet s)"

text \<open>
  Modelled from the spec: id.go is missing. A parser fails with \<open>ParseError\<close> on "malformed or
  out-of-alphabet input" and on a "decoded numeric value exceeding the representable
  range" of the 64-bit signed ID. The empty text is malformed: no encoder emits it.
\<close>

definition parse_base :: "string \<Rightarrow> string \<Rightarrow> codec_error + ID" where
  "parse_base alphabet s =
     (if s = [] then Inl (ParseError s)
      else case decode_base alphabet s of
             None \<Rightarrow> Inl (ParseError s)
           | Some v \<Rightarrow> if v < 2 ^ 63 then Inr (of_nat v) else Inl (ParseError s))"

subsection \<open>The alphabets\<close>

text \<open>Modelled from the spec: id.go is missing. The two digits of the "base-2 text".\<close>

definition alphabet2 :: string where "alphabet2 = ''01''"

text \<open>
  Modelled from the spec: id.go is missing. The decimal digits, for the "base-10 text of the integer".
\<close>

definition alphabet10 :: string where "alphabet10 = ''0123456789''"

text \<open>
  Modelled from the spec: id.go is missing. Base36, "digits 0-9, a-z".
\<close>

definition alphabet36 :: string where
  "alphabet36 = ''0123456789abcdefghijklmnopqrstuvwxyz''"

text \<open>
  Modelled from the spec: id.go is missing. Base32 has a "custom alphabet, excludes ambiguous chars: no
  l, v, 2, case-sensitive lowercase only". The table itself is not in the sources; this
  is the 32-character table with these properties under which the vector of
  \<open>TestParseBase32\<close>, \<open>b8wjm1zroyyyy\<close> for 1427970479175499776, decodes.
\<close>

definition alphabet32 :: string where
  "alphabet32 = ''ybndrfg8ejkmcpqxot1uwisza345h769''"

text \<open>
  Modelled from the spec: id.go is missing. Base58 has a "Bitcoin-style alphabet, excludes 0, I, O, l".
  The table itself is not in the sources; this is that character set in the order
  under which the vector of \<open>TestParseBase58\<close>, \<open>4jgmnx8Js8A\<close> for 1428076403798048768,
  decodes.
\<close>

definition alphabet58 :: string where
  "alphabet58 = ''123456789abcdefghijkmnopqrstuvwxyzABCDEFGHJKLMNPQRSTUVWXYZ''"

text \<open>Modelled from the spec: id.go is missing. "base64 (standard, padded)", the table of RFC 4648.\<close>

definition alphabet64 :: string where
  "alphabet64 = ''ABCDEFGHIJKLMNOPQRSTUVWXYZabcdefghijklmnopqrstuvwxyz0123456789+/''"

subsection \<open>Encoders and parsers\<close>

text \<open>
  Modelled from the spec: id.go is missing. An ID is a non-negative 64-bit signed integer, and the
  positional encoders are specified on IDs only. \<open>ID_value\<close> reads the number that
  they encode.
\<close>

definition ID_value :: "ID \<Rightarrow> nat" where
  "ID_value x = nat (sint x)"

text \<open>
  Modelled from the spec: id.go is missing. "decimal integer: identity cast to/from the native 64-bit
  signed integer"; decode is "a reinterpretation, not parsing".
\<close>

definition Int64 :: "ID \<Rightarrow> int64" where "Int64 x = x"

text \<open>
  Modelled from the spec: id.go is missing. The decimal-integer decode is "a reinterpretation, not
  parsing", with no failure.
\<close>

definition ParseInt64 :: "int64 \<Rightarrow> ID" where "ParseInt64 i = i"

text \<open>
  Modelled from the spec: id.go is missing. "decimal string: base-10 text of the integer", with a minus
  sign before the digits of a negative integer; the parser "fails with ParseError on
  non-numeric or out-of-range text".
\<close>

definition String :: "ID \<Rightarrow> string" where
  "String x =
     (if 0 \<le>s x then encode_base alphabet10 (nat (sint x))
      else CHR ''-'' # encode_base alphabet10 (nat (- sint x)))"

text \<open>
  Modelled from the spec: id.go is missing. The parser of the decimal string "fails with ParseError on
  non-numeric or out-of-range text"; a minus sign may precede the digits.
\<close>

definition ParseString :: "string \<Rightarrow> codec_error + ID" where
  "ParseString s =
     (case s of
        c # ds \<Rightarrow>
          if c = CHR ''-'' then
            (if ds = [] then Inl (ParseError s)
             else case decode_base alphabet10 ds of
                    None \<Rightarrow> Inl (ParseError s)
                  | Some v \<Rightarrow> if v \<le> 2 ^ 63 then Inr (- of_nat v) else Inl (ParseError s))
          else parse_base alphabet10 s
      | [] \<Rightarrow> Inl (ParseError s))"

text \<open>
  Modelled from the spec: id.go is missing. "binary string: base-2 text, no leading zero padding required
  for decode, but encoding pads to 63 digits"; the parser "fails with ParseError on
  invalid digits or overflow".
\<close>

definition Base2 :: "ID \<Rightarrow> string" where
  "Base2 x =
     (let ds = encode_base alphabet2 (ID_value x)
      in replicate (63 - length ds) CHR ''0'' @ ds)"

text \<open>
  Modelled from the spec: id.go is missing. The binary parser "fails with ParseError on invalid digits
  or overflow" and requires no padding.
\<close>

definition ParseBase2 :: "string \<Rightarrow> codec_error + ID" where
  "ParseBase2 s = parse_base alphabet2 s"

text \<open>Modelled from the spec: id.go is missing. Base32, "digits mapped via fixed alphabet table".\<close>

definition Base32 :: "ID \<Rightarrow> string" where
  "Base32 x = encode_base alphabet32 (ID_value x)"

text \<open>
  Modelled from the spec: id.go is missing. The base32 parser "fails with ParseError on characters
  outside alphabet, including any uppercase".
\<close>

definition ParseBase32 :: "string \<Rightarrow> codec_error + ID" where
  "ParseBase32 s = parse_base alphabet32 s"

text \<open>
  Modelled from the spec: id.go is missing. Base36, "digits 0-9, a-z"; the parser "fails with ParseError
  on invalid characters or overflow".
\<close>

definition Base36 :: "ID \<Rightarrow> string" where
  "Base36 x = encode_base alphabet36 (ID_value x)"

text \<open>
  Modelled from the spec: id.go is missing. The base36 parser "fails with ParseError on invalid
  characters or overflow".
\<close>

definition ParseBase36 :: "string \<Rightarrow> codec_error + ID" where
  "ParseBase36 s = parse_base alphabet36 s"

text \<open>Modelled from the spec: id.go is missing. Base58, "digits mapped via fixed alphabet table".\<close>

definition Base58 :: "ID \<Rightarrow> string" where
  "Base58 x = encode_base alphabet58 (ID_value x)"

text \<open>
  Modelled from the spec: id.go is missing. The base58 parser "fails with ParseError on characters
  outside alphabet".
\<close>

definition ParseBase58 :: "string \<Rightarrow> codec_error + ID" where
  "ParseBase58 s = parse_base alphabet58 s"

text \<open>
  Modelled from the spec: id.go is missing. Standard padded base64 of a byte string. Three bytes give
  four characters; one or two remaining bytes give two or three characters and
  \<open>=\<close> padding. The decoder accepts whole groups of four only, padding in the last
  group only, and characters of the table only.
\<close>

fun base64_encode :: "string \<Rightarrow> string" where
  "base64_encode [] = []"
| "base64_encode [a] =
     (let x = of_char a :: nat
      in [alphabet64 ! (x div 4), alphabet64 ! ((x mod 4) * 16), CHR ''='', CHR ''=''])"
| "base64_encode [a, b] =
     (let x = of_char a :: nat; y = of_char b :: nat
      in [alphabet64 ! (x div 4), alphabet64 ! ((x mod 4) * 16 + y div 16),
          alphabet64 ! ((y mod 16) * 4), CHR ''=''])"
| "base64_encode (a # b # c # rest) =
     (let x = of_char a :: nat; y = of_char b :: nat; z = of_char c :: nat
      in [alphabet64 ! (x div 4), alphabet64 ! ((x mod 4) * 16 + y div 16),
          alphabet64 ! ((y mod 16) * 4 + z div 64), alphabet64 ! (z mod 64)]
         @ base64_encode rest)"

text \<open>
  Modelled from the spec: id.go is missing. The decoder of standard padded base64; \<open>None\<close> on malformed
  input: a length that is not a multiple of four, a character outside the table, or
  padding anywhere but at the end of the last group.
\<close>

fun base64_decode :: "string \<Rightarrow> string option" where
  "base64_decode [] = Some []"
| "base64_decode (c1 # c2 # c3 # c4 # rest) =
     (if rest = [] \<and> c4 = CHR ''='' then
        (if c3 = CHR ''='' then
           (case (index_of alphabet64 c1, index_of alphabet64 c2) of
              (Some i, Some j) \<Rightarrow> Some [char_of (i * 4 + j div 16)]
            | _ \<Rightarrow> None)
         else
           (case (index_of alphabet64 c1, index_of alphabet64 c2, index_of alphabet64 c3) of
              (Some i, Some j, Some k) \<Rightarrow>
                Some [char_of (i * 4 + j div 16), char_of ((j mod 16) * 16 + k div 4)]
            | _ \<Rightarrow> None))
      else
        (case (index_of alphabet64 c1, index_of alphabet64 c2, index_of alphabet64 c3,
               index_of alphabet64 c4) of
           (Some i, Some j, Some k, Some l) \<Rightarrow>
             map_option
               (\<lambda>bs. char_of (i * 4 + j div 16) # char_of ((j mod 16) * 16 + k div 4)
                       # char_of ((k mod 4) * 64 + l) # bs)
               (base64_decode rest)
         | _ \<Rightarrow> None))"
| "base64_decode _ = None"

text \<open>
  Modelled from the spec: id.go is missing. "base64 wraps the textual decimal representation, not the
  raw integer bytes"; the parser "fails with ParseError on malformed base64 or
  non-numeric decoded payload".
\<close>

definition Base64 :: "ID \<Rightarrow> string" where
  "Base64 x = base64_encode (String x)"

text \<open>
  Modelled from the spec: id.go is missing. The base64 parser "fails with ParseError on malformed base64
  or non-numeric decoded payload".
\<close>

definition ParseBase64 :: "string \<Rightarrow> codec_error + ID" where
  "ParseBase64 s =
     (case base64_decode s of
        None \<Rightarrow> Inl (ParseError s)
      | Some t \<Rightarrow> (case ParseString t of Inl e \<Rightarrow> Inl (ParseError s) | Inr x \<Rightarrow> Inr x))"

text \<open>
  Modelled from the spec: id.go is missing. The "variable-length ASCII-decimal-digit byte sequence"; "the
  ASCII-decimal byte parser fails with ParseError if the input exceeds 19 digits (int64
  decimal capacity)".
\<close>

definition Bytes :: "ID \<Rightarrow> string" where
  "Bytes x = String x"

text \<open>
  Modelled from the spec: id.go is missing. "the ASCII-decimal byte parser fails with ParseError if the
  input exceeds 19 digits (int64 decimal capacity)"; otherwise it parses decimal text.
\<close>

definition ParseBytes :: "string \<Rightarrow> codec_error + ID" where
  "ParseBytes b = (if 19 < length b then Inl (ParseError b) else ParseString b)"

text \<open>
  Modelled from the spec: id.go is missing. The "fixed-width 8-byte two's-complement big-endian encoding".
  The Go type of the array fixes its length at 8; the parser reads the bytes it is
  given, most significant first.
\<close>

definition IntBytes :: "ID \<Rightarrow> 8 word list" where
  "IntBytes x = map (\<lambda>i. ucast (drop_bit (8 * (7 - i)) x)) [0 ..< 8]"

text \<open>
  Modelled from the spec: id.go is missing. The parser of the big-endian byte array; it has no failure.
\<close>

definition ParseIntBytes :: "8 word list \<Rightarrow> ID" where
  "ParseIntBytes bs = foldl (\<lambda>v b. push_bit 8 v OR ucast b) 0 bs"

text \<open>
  Modelled from the spec: id.go is missing. "an ID serializes as a JSON string containing its decimal
  digits (quoted ...); unmarshal fails with a syntax error if the input is not a quoted
  decimal string", the error "carrying the offending raw bytes". A quoted decimal
  string is a double quote, an optional minus sign and at least one decimal digit, and
  a double quote. A quoted decimal string beyond the 64-bit range is a \<open>ParseError\<close>.
\<close>

definition MarshalJSON :: "ID \<Rightarrow> string" where
  "MarshalJSON x = CHR 0x22 # String x @ [CHR 0x22]"

text \<open>
  Modelled from the spec: id.go is missing. Decimal text: an optional minus sign and at least one
  decimal digit.
\<close>

definition decimal_text :: "string \<Rightarrow> bool" where
  "decimal_text s \<longleftrightarrow>
     (let ds = (case s of c # r \<Rightarrow> if c = CHR ''-'' then r else s | [] \<Rightarrow> s)
      in ds \<noteq> [] \<and> list_all (\<lambda>c. c \<in> set alphabet10) ds)"

text \<open>
  Modelled from the spec: id.go is missing. "a quoted decimal string": decimal text between two double
  quotes.
\<close>

definition quoted_decimal :: "string \<Rightarrow> bool" where
  "quoted_decimal b \<longleftrightarrow>
     2 \<le> length b \<and> hd b = CHR 0x22 \<and> last b = CHR 0x22 \<and> decimal_text (butlast (tl b))"

text \<open>
  Modelled from the spec: id.go is missing. "unmarshal fails with a syntax error if the input is not a
  quoted decimal string", the error "carrying the offending raw bytes".
\<close>

definition UnmarshalJSON :: "string \<Rightarrow> codec_error + ID" where
  "UnmarshalJSON b =
     (if quoted_decimal b then ParseString (butlast (tl b)) else Inl (JSONSyntaxError b))"

section \<open>Properties of the generator\<close>

lemma BitLens [simp]: "BitLenTime = 39" "BitLenMachineID = 16" "BitLenSequence = 8"
  by (simp_all add: BitLenTime_def BitLenMachineID_def BitLenSequence_def)

lemma maskSequence_255: "maskSequence = 255"
  by (simp add: maskSequence_def)

subsection \<open>Word arithmetic\<close>

lemma and_255_unat: "unat ((w :: uint16) AND 255) = unat w mod 256"
proof -
  have "(255 :: uint16) = mask 8" by (simp add: mask_eq_exp_minus_1)
  then have "w AND 255 = take_bit 8 w" by (simp add: take_bit_eq_mask)
  then have "unat (w AND 255) = unat (take_bit 8 w)" by simp
  also have "\<dots> = take_bit 8 (unat w)" by (rule unsigned_take_bit_eq)
  also have "\<dots> = unat w mod 256" by (simp add: take_bit_eq_mod)
  finally show ?thesis .
qed

lemma seq_eq_255: "(s :: uint16) = 255 \<longleftrightarrow> unat s = 255"
  by (simp add: word_unat_eq_iff)

lemma seq_next_unat:
  assumes "(s::uint16) \<le> 255"
  shows "unat ((s + 1) AND 255) = (if s = 255 then 0 else unat s + 1)"
proof -
  from assms have le: "unat s \<le> 255" by (simp add: word_le_nat_alt)
  then have "unat (s + 1) = unat s + 1" by (simp add: unat_word_ariths)
  with le show ?thesis
    by (auto simp add: and_255_unat seq_eq_255)
qed

lemma seq_next_zero_iff:
  assumes "(s::uint16) \<le> 255"
  shows "(s + 1) AND 255 = 0 \<longleftrightarrow> s = 255"
proof -
  have "(s + 1) AND 255 = 0 \<longleftrightarrow> unat ((s + 1) AND 255) = 0"
    by (simp add: unat_eq_0)
  then show ?thesis using seq_next_unat [OF assms] by simp
qed

lemma sint_succ64:
  assumes "sint (e :: int64) < 2 ^ 63 - 1"
  shows "sint (e + 1) = sint e + 1"
proof -
  have "- (2 ^ 63) \<le> sint e" using sint_ge [of e] by simp
  with assms show ?thesis
    by (simp add: sint_word_add signed_take_bit_int_eq_self)
qed

lemma sint_diff64:
  assumes "- (2 ^ 63) \<le> sint (a :: int64) - sint b" "sint a - sint (b :: int64) < 2 ^ 63"
  shows "sint (a - b) = sint a - sint b"
  using assms by (simp add: sint_word_diff signed_take_bit_int_eq_self)

lemma seq_bits:
  assumes "(s :: uint16) \<le> 255" "bit s n"
  shows "n < 8"
proof -
  from assms(1) have "s < 2 ^ 8" by (simp add: word_le_nat_alt word_less_nat_alt)
  then have "take_bit 8 s = s" by (simp add: less_mask_eq take_bit_eq_mask)
  then have "bit (take_bit 8 s) n" using assms(2) by simp
  then show ?thesis by (simp add: bit_take_bit_iff)
qed

lemma pack_or_eq_add:
  assumes "(s :: uint16) \<le> 255"
  shows "push_bit 24 (e :: int64) OR push_bit 8 (ucast (m :: uint16)) OR ucast s
       = push_bit 24 e + (push_bit 8 (ucast m) + ucast s)"
proof -
  have 1: "push_bit 8 (ucast m :: int64) AND ucast s = 0"
    by (rule bit_word_eqI) (auto simp add: bit_simps dest: seq_bits [OF assms])
  have 2: "push_bit 24 e AND (push_bit 8 (ucast m :: int64) + ucast s) = 0"
    unfolding disjunctive_add_eq_or [OF 1]
    by (rule bit_word_eqI)
      (auto simp add: bit_simps dest: seq_bits [OF assms] bit_imp_le_length)
  show ?thesis
    by (simp only: disjunctive_add_eq_or [OF 1, symmetric] disjunctive_add_eq_or [OF 2, symmetric])
qed

lemma pack_sint:
  assumes "(s :: uint16) \<le> 255" "0 \<le> sint (e :: int64)" "sint e < 2 ^ 39"
  shows "sint (push_bit 24 e OR push_bit 8 (ucast (m :: uint16)) OR ucast s)
       = sint e * 2 ^ 24 + uint m * 2 ^ 8 + uint s"
proof -
  let ?k = "sint e * 2 ^ 24 + uint m * 2 ^ 8 + uint s"
  have "(word_of_int ?k :: int64)
      = word_of_int (sint e) * 2 ^ 24 + word_of_int (uint m) * 2 ^ 8 + word_of_int (uint s)"
    by (simp only: of_int_add of_int_mult of_int_power of_int_numeral)
  also have "\<dots> = e * 2 ^ 24 + ucast m * 2 ^ 8 + (ucast s :: int64)"
    by simp
  also have "\<dots> = push_bit 24 e + (push_bit 8 (ucast m) + (ucast s :: int64))"
    by (simp only: push_bit_eq_mult add.assoc)
  finally have "push_bit 24 e + (push_bit 8 (ucast m) + (ucast s :: int64)) = word_of_int ?k"
    by (rule sym)
  then have eq: "push_bit 24 e OR push_bit 8 (ucast m) OR (ucast s :: int64) = word_of_int ?k"
    by (simp only: pack_or_eq_add [OF assms(1)])
  have m: "0 \<le> uint m" "uint m < 65536" using uint_bounded [of m] by simp_all
  from assms(1) have s: "0 \<le> uint s" "uint s \<le> 255" by (simp_all add: word_le_def)
  from assms(2,3) have e: "0 \<le> sint e" "sint e \<le> 549755813887" by simp_all
  have "- 9223372036854775808 \<le> sint e * 16777216 + uint m * 256 + uint s"
    using m s e by linarith
  moreover have "sint e * 16777216 + uint m * 256 + uint s < 9223372036854775808"
    using m s e by linarith
  ultimately have "- (2 ^ 63) \<le> ?k" "?k < 2 ^ 63" by simp_all
  then have "signed_take_bit 63 ?k = ?k" by (simp add: signed_take_bit_int_eq_self)
  then show ?thesis unfolding eq by (simp only: sint_sbintrunc') simp
qed

subsection \<open>Clock readings and ticks\<close>

lemma sdiv_unit_bounds:
  assumes "- (2 ^ 63) \<le> (k :: int)" "k < 2 ^ 63"
  shows "- 922337203685 \<le> k sdiv 10000000" "k sdiv 10000000 \<le> 922337203685"
proof -
  have *: "k sdiv 10000000 = (if 0 \<le> k then k div 10000000 else - ((- k) div 10000000))"
    by (auto simp add: signed_divide_int_def sgn_if)
  from assms have a: "- 9223372036854775808 \<le> k" "k < 9223372036854775808" by simp_all
  show "- 922337203685 \<le> k sdiv 10000000" unfolding * using a by (auto; linarith)
  show "k sdiv 10000000 \<le> 922337203685" unfolding * using a by (auto; linarith)
qed

lemma sint_toGlflakeTime:
  "sint (toGlflakeTime t) = sint t sdiv 10000000"
proof -
  have r: "- (2 ^ 63) \<le> sint t" "sint t < 2 ^ 63"
    using sint_ge [of t] sint_lt [of t] by simp_all
  note b = sdiv_unit_bounds [OF r]
  have "signed_take_bit 63 (sint t sdiv 10000000) = sint t sdiv 10000000"
    using b by (simp add: signed_take_bit_int_eq_self)
  then show ?thesis
    by (simp add: toGlflakeTime_def div64_def glflakeTimeUnit_def sint_sbintrunc')
qed

lemma toGlflakeTime_bounds:
  "- 922337203685 \<le> sint (toGlflakeTime t)" "sint (toGlflakeTime t) \<le> 922337203685"
proof -
  have r: "- (2 ^ 63) \<le> sint t" "sint t < 2 ^ 63"
    using sint_ge [of t] sint_lt [of t] by simp_all
  show "- 922337203685 \<le> sint (toGlflakeTime t)" "sint (toGlflakeTime t) \<le> 922337203685"
    using sdiv_unit_bounds [OF r] by (simp_all add: sint_toGlflakeTime)
qed

lemma sint_currentElapsedTime:
  assumes "- 922337203685 \<le> sint start" "sint start \<le> 922337203685"
  shows "sint (currentElapsedTime now start) = sint (toGlflakeTime now) - sint start"
  unfolding currentElapsedTime_def
  using assms toGlflakeTime_bounds [of now] by (intro sint_diff64) simp_all

lemma sint_rem64_unit:
  "sint (rem64 t glflakeTimeUnit) = sint t smod 10000000"
proof -
  have "sint t smod 10000000 \<in> {- \<bar>10000000\<bar> + 1..\<bar>10000000\<bar> - 1}"
    by (rule smod_int_range) simp
  then have "- (2 ^ 63) \<le> sint t smod 10000000" "sint t smod 10000000 < 2 ^ 63" by simp_all
  then have "signed_take_bit 63 (sint t smod 10000000) = sint t smod 10000000"
    by (simp add: signed_take_bit_int_eq_self)
  then show ?thesis
    by (simp add: rem64_def glflakeTimeUnit_def sint_sbintrunc')
qed

lemma smod_unit_eq:
  "sint t smod 10000000 = sint t - sint (toGlflakeTime t) * 10000000"
  using sdiv_mult_smod_eq [of "sint t" 10000000] by (simp add: sint_toGlflakeTime)

lemma sint_mult_unit:
  assumes "- 922337203685 \<le> sint (a :: int64)" "sint a \<le> 922337203685"
  shows "sint (a * 10 * 1000000) = sint a * 10000000"
proof -
  have "a * 10 * 1000000 = word_of_int (sint a * 10000000)"
    by simp
  moreover have "- (2 ^ 63) \<le> sint a * 10000000" "sint a * 10000000 < 2 ^ 63"
    using assms by simp_all
  then have "signed_take_bit 63 (sint a * 10000000) = sint a * 10000000"
    by (simp add: signed_take_bit_int_eq_self)
  ultimately show ?thesis by (simp only: sint_sbintrunc') simp
qed

lemma sint_sleepTime:
  assumes "- 900000000000 \<le> sint overtime" "sint overtime \<le> 900000000000"
  shows "sint (sleepTime overtime now)
       = sint overtime * 10000000 - (sint now - sint (toGlflakeTime now) * 10000000)"
proof -
  have r: "sint now smod 10000000 \<in> {- \<bar>10000000\<bar> + 1..\<bar>10000000\<bar> - 1}"
    by (rule smod_int_range) simp
  from assms have a: "- 922337203685 \<le> sint overtime" "sint overtime \<le> 922337203685"
    by simp_all
  define p where "p = overtime * 10 * 1000000"
  define q where "q = rem64 now glflakeTimeUnit"
  have p: "sint p = sint overtime * 10000000"
    unfolding p_def by (rule sint_mult_unit [OF a])
  have q: "sint q = sint now smod 10000000"
    unfolding q_def by (rule sint_rem64_unit)
  have "- (2 ^ 63) \<le> sint p - sint q" "sint p - sint q < 2 ^ 63"
    using r assms unfolding p q by simp_all
  then have "sint (p - q) = sint p - sint q" by (rule sint_diff64)
  moreover have "sleepTime overtime now = p - q"
    by (simp add: sleepTime_def p_def q_def)
  ultimately show ?thesis
    by (simp add: p q smod_unit_eq)
qed

subsection \<open>Decompose\<close>

lemma Decompose_time: "Decompose x ''time'' = Some (signed_drop_bit 24 x)"
  by (simp add: Decompose_def)

lemma Decompose_machine:
  "Decompose x ''machine-id'' = Some (signed_drop_bit 8 (x AND 16776960))"
  by (simp add: Decompose_def)

lemma Decompose_sequence: "Decompose x ''sequence'' = Some (x AND 255)"
  by (simp add: Decompose_def)

lemma Decompose_dom:
  "dom (Decompose x) = {''id'', ''msb'', ''time'', ''machine-id'', ''sequence''}"
  by (auto simp add: Decompose_def Let_def)

lemma repack:
  "push_bit 24 (signed_drop_bit 24 x) OR push_bit 8 (signed_drop_bit 8 (x AND 16776960))
     OR (x AND 255) = (x :: int64)"
proof -
  have m16: "(16776960 :: int64) = push_bit 8 (mask 16)"
    by (simp add: mask_eq_exp_minus_1)
  have m8: "(255 :: int64) = mask 8"
    by (simp add: mask_eq_exp_minus_1)
  show ?thesis
    unfolding m16 m8
    apply (rule bit_word_eqI)
    apply (auto simp add: bit_simps)
    subgoal for n by (cases "24 \<le> n") auto
    done
qed

text \<open>
  C5. \<open>Decompose\<close> is defined on every 64-bit value and always yields the same five
  keys; the time, machine-id and sequence fields it extracts recombine to the input by
  the packing formula, for every 64-bit input (negative ones included); and
  \<open>Decompose(9223372036854775807)\<close> has time 549755813887, machine-id 65535,
  sequence 255 and msb 0.
\<close>

theorem Decompose_recombines:
  "dom (Decompose x) = {''id'', ''msb'', ''time'', ''machine-id'', ''sequence''}
   \<and> pack_parts (Decompose x) = Some x
   \<and> Decompose 9223372036854775807 ''time'' = Some 549755813887
   \<and> Decompose 9223372036854775807 ''machine-id'' = Some 65535
   \<and> Decompose 9223372036854775807 ''sequence'' = Some 255
   \<and> Decompose 9223372036854775807 ''msb'' = Some 0
   \<and> Decompose 9223372036854775807 ''id'' = Some 9223372036854775807"
proof -
  have "pack_parts (Decompose x) = Some x"
    by (simp add: pack_parts_def Decompose_time Decompose_machine Decompose_sequence repack)
  moreover have "Decompose 9223372036854775807 ''time'' = Some 549755813887
   \<and> Decompose 9223372036854775807 ''machine-id'' = Some 65535
   \<and> Decompose 9223372036854775807 ''sequence'' = Some 255
   \<and> Decompose 9223372036854775807 ''msb'' = Some 0
   \<and> Decompose 9223372036854775807 ''id'' = Some 9223372036854775807"
    by code_simp
  ultimately show ?thesis
    using Decompose_dom [of x] by blast
qed

subsection \<open>Construction\<close>

text \<open>
  C6. \<open>NewGlflake\<close> returns \<open>nil\<close> exactly when the configured start time is an
  instant after the current time, or the machine-ID capability (the configured one, or the default when
  none is configured) returns an error, or a validation capability is configured and
  returns false for the resolved machine ID; otherwise it returns an instance.
\<close>

theorem NewGlflake_nil_iff:
  "NewGlflake st now lower16 = None \<longleftrightarrow>
     now < StartTime st
   \<or> (\<exists>err. (case MachineID st of None \<Rightarrow> lower16 | Some f \<Rightarrow> f ()) = Inl err)
   \<or> (\<exists>chk mid. CheckMachineID st = Some chk
         \<and> (case MachineID st of None \<Rightarrow> lower16 | Some f \<Rightarrow> f ()) = Inr mid
         \<and> chk mid = False)"
  by (auto simp add: NewGlflake_def After_def Let_def split: option.splits sum.splits)

text \<open>
  The comparison is one of instants, not of wrapped readings: at the end of October 2026
  a start time in 2300, whose \<open>UnixNano()\<close> is negative, is refused, and a start time in
  1600, whose \<open>UnixNano()\<close> is positive, is accepted.
\<close>

lemma NewGlflake_out_of_range_start:
  "UnixNano 10413792000000000000 = - 8032952073709551616"
  "NewGlflake \<lparr>StartTime = 10413792000000000000, MachineID = Some (\<lambda>_. Inr 1),
      CheckMachineID = None\<rparr> 1793404800000000000 (Inl MachineIDError) = None"
  "UnixNano (- 11676096000000000000) = 6770648073709551616"
  "NewGlflake \<lparr>StartTime = - 11676096000000000000, MachineID = Some (\<lambda>_. Inr 1),
      CheckMachineID = None\<rparr> 1793404800000000000 (Inl MachineIDError)
   = Some \<lparr>startTime = 677064807370, elapsedTime = 0, machineID = 1, sequence = 255\<rparr>"
  by (simp_all add: NewGlflake_def After_def IsZero_def zeroTime_def UnixNano_def
      toGlflakeTime_def div64_def glflakeTimeUnit_def)

lemma NewGlflake_SomeD:
  assumes "NewGlflake st now lower16 = Some gf"
  shows "elapsedTime gf = 0" and "sequence gf = 255"
    and "startTime gf =
           toGlflakeTime (UnixNano (if IsZero (StartTime st) then defaultStartTime
                                    else StartTime st))"
  using assms
  by (auto simp add: NewGlflake_def Let_def split: option.splits sum.splits if_splits)

lemma first_sequence:
  assumes "sequence gf = 255"
  shows "sequence (fst (NextID gf now now')) = 0"
  using assms
  by (simp add: NextID_def advance_def Let_def maskSequence_def split: prod.splits)

text \<open>
  C9. A successfully constructed generator has its sequence counter at \<open>2^8 - 1 = 255\<close>
  (and its elapsed tick at 0), and the first \<open>NextID\<close> on it leaves the sequence at 0
  whatever the clock reads.
\<close>

theorem NewGlflake_sequence_max:
  assumes "NewGlflake st now lower16 = Some gf"
  shows "sequence gf = 2 ^ 8 - 1 \<and> elapsedTime gf = 0
         \<and> sequence (fst (NextID gf t t')) = 0"
  using NewGlflake_SomeD(1,2) [OF assms] first_sequence [of gf t t'] by simp

theorem NewGlflake_sequence_max_witness:
  "NewGlflake \<lparr>StartTime = 0, MachineID = Some (\<lambda>_. Inr 1), CheckMachineID = None\<rparr>
      500000000 (Inl MachineIDError)
    = Some \<lparr>startTime = 0, elapsedTime = 0, machineID = 1, sequence = 255\<rparr>
   \<and> sequence \<lparr>startTime = 0, elapsedTime = 0, machineID = 1, sequence = 255\<rparr> = 2 ^ 8 - 1
   \<and> sequence (fst (NextID \<lparr>startTime = 0, elapsedTime = 0, machineID = 1, sequence = 255\<rparr>
         500000000 500000000)) = 0"
proof -
  have c: "NewGlflake
      \<lparr>StartTime = 0, MachineID = Some (\<lambda>_. Inr 1), CheckMachineID = None\<rparr>
      500000000 (Inl MachineIDError)
    = Some \<lparr>startTime = 0, elapsedTime = 0, machineID = 1, sequence = 255\<rparr>"
    by (simp add: NewGlflake_def After_def IsZero_def zeroTime_def UnixNano_def
        toGlflakeTime_def div64_def glflakeTimeUnit_def)
  from NewGlflake_sequence_max [OF c, of 500000000 500000000] c show ?thesis
    by simp
qed

subsection \<open>One call\<close>

text \<open>The three branches of \<open>advance\<close>, for a sequence counter within its 8 bits.\<close>

lemma advance_cases [consumes 1, case_names tick same wrap]:
  assumes "sequence gf \<le> 255"
  obtains
    (tick) "elapsedTime gf <s currentElapsedTime now (startTime gf)"
      "advance gf now now' =
         (gf\<lparr>elapsedTime := currentElapsedTime now (startTime gf), sequence := 0\<rparr>, None)"
  | (same) "\<not> elapsedTime gf <s currentElapsedTime now (startTime gf)"
      "sequence gf \<noteq> 255"
      "advance gf now now' = (gf\<lparr>sequence := sequence gf + 1\<rparr>, None)"
      "unat (sequence gf + 1) = unat (sequence gf) + 1"
  | (wrap) "\<not> elapsedTime gf <s currentElapsedTime now (startTime gf)"
      "sequence gf = 255"
      "advance gf now now' =
         (gf\<lparr>sequence := 0, elapsedTime := elapsedTime gf + 1\<rparr>,
          Some (sleepTime (elapsedTime gf + 1 - currentElapsedTime now (startTime gf)) now'))"
proof (cases "elapsedTime gf <s currentElapsedTime now (startTime gf)")
  case True
  then show ?thesis by (intro tick) (simp_all add: advance_def Let_def)
next
  case False
  show ?thesis
  proof (cases "sequence gf = 255")
    case True
    with False show ?thesis
      by (intro wrap) (simp_all add: advance_def Let_def maskSequence_255)
  next
    case ne: False
    have u: "unat ((sequence gf + 1) AND 255) = unat (sequence gf) + 1"
      using seq_next_unat [OF assms] ne by simp
    from assms have "unat (sequence gf) \<le> 255" by (simp add: word_le_nat_alt)
    then have v: "unat (sequence gf + 1) = unat (sequence gf) + 1"
      by (simp add: unat_word_ariths)
    from u v have eq: "(sequence gf + 1) AND 255 = sequence gf + 1"
      by (simp add: word_unat_eq_iff)
    have nz: "sequence gf + 1 \<noteq> 0"
      using v by (metis Suc_eq_plus1 nat.distinct(1) unat_0)
    from False ne eq nz v show ?thesis
      by (intro same) (simp_all add: advance_def Let_def maskSequence_255)
  qed
qed

lemma advance_step:
  fixes gf :: glflake and now now' :: int64
  assumes "sequence gf \<le> 255" and "sint (elapsedTime gf) < 2 ^ 63 - 1"
  defines "gf' \<equiv> fst (advance gf now now')"
  shows "tick_seq_less gf gf'"
    and "sequence gf' \<le> 255"
    and "machineID gf' = machineID gf"
    and "startTime gf' = startTime gf"
    and "sint (elapsedTime gf) \<le> sint (elapsedTime gf')"
    and "sint (elapsedTime gf') \<le>
           max (sint (elapsedTime gf) + 1) (sint (currentElapsedTime now (startTime gf)))"
proof -
  have "tick_seq_less gf gf' \<and> sequence gf' \<le> 255 \<and> machineID gf' = machineID gf
      \<and> startTime gf' = startTime gf \<and> sint (elapsedTime gf) \<le> sint (elapsedTime gf')
      \<and> sint (elapsedTime gf') \<le>
           max (sint (elapsedTime gf) + 1) (sint (currentElapsedTime now (startTime gf)))"
  proof (rule advance_cases [OF assms(1), of now now'], goal_cases tick same wrap)
    case tick
    then show ?thesis
      by (simp add: gf'_def tick_seq_less_def word_sless_alt)
  next
    case same
    from same(4) have "sequence gf < sequence gf + 1" by (simp add: word_less_nat_alt)
    moreover from same(4) assms(1) same(2) have "sequence gf + 1 \<le> 255"
      by (simp add: word_le_nat_alt word_unat_eq_iff)
    ultimately show ?thesis using same
      by (simp add: gf'_def tick_seq_less_def)
  next
    case wrap
    then show ?thesis using sint_succ64 [OF assms(2)]
      by (simp add: gf'_def tick_seq_less_def word_sless_alt)
  qed
  then show "tick_seq_less gf gf'"
    and "sequence gf' \<le> 255"
    and "machineID gf' = machineID gf"
    and "startTime gf' = startTime gf"
    and "sint (elapsedTime gf) \<le> sint (elapsedTime gf')"
    and "sint (elapsedTime gf') \<le>
           max (sint (elapsedTime gf) + 1) (sint (currentElapsedTime now (startTime gf)))"
    by simp_all
qed

lemma tick_seq_less_value:
  assumes "tick_seq_less a b" "machineID a = machineID b" "sequence a \<le> 255" "sequence b \<le> 255"
  shows "id_value a < id_value b"
proof -
  have m: "0 \<le> uint (machineID b)" "uint (machineID b) < 65536"
    using uint_bounded [of "machineID b"] by simp_all
  from assms(3,4) have s: "0 \<le> uint (sequence a)" "uint (sequence a) \<le> 255"
     "0 \<le> uint (sequence b)" "uint (sequence b) \<le> 255"
    by (simp_all add: word_le_def)
  from assms(1) consider (t) "sint (elapsedTime a) < sint (elapsedTime b)"
    | (s) "elapsedTime a = elapsedTime b" "uint (sequence a) < uint (sequence b)"
    by (auto simp add: tick_seq_less_def word_sless_alt word_less_def)
  then show ?thesis
  proof cases
    case t
    then have "sint (elapsedTime a) + 1 \<le> sint (elapsedTime b)" by simp
    then have "sint (elapsedTime a) * 16777216 + 16777216 \<le> sint (elapsedTime b) * 16777216"
      by simp
    then have "sint (elapsedTime a) * 16777216 + uint (machineID b) * 256 + uint (sequence a)
        < sint (elapsedTime b) * 16777216 + uint (machineID b) * 256 + uint (sequence b)"
      using m s by linarith
    then show ?thesis using assms(2) by (simp add: id_value_def)
  next
    case s
    then show ?thesis using assms(2) by (simp add: id_value_def)
  qed
qed

lemma tick_seq_less_trans:
  assumes "tick_seq_less a b" "tick_seq_less b c"
  shows "tick_seq_less a c"
  using assms by (auto simp add: tick_seq_less_def word_sless_alt)

lemma toID_value:
  assumes "sequence gf \<le> 255" "0 \<le> sint (elapsedTime gf)" "toID gf = Inr x"
  shows "sint x = id_value gf"
proof -
  from assms(3) have lt: "sint (elapsedTime gf) < 2 ^ 39" and
    x: "x = push_bit 24 (elapsedTime gf) OR push_bit 8 (ucast (machineID gf)) OR ucast (sequence gf)"
    by (auto simp add: toID_def word_sle_eq split: if_splits)
  show ?thesis unfolding x id_value_def
    by (rule pack_sint [OF assms(1,2) lt])
qed

lemma NextID_eq: "NextID gf now now' =
  (fst (advance gf now now'), snd (advance gf now now'), toID (fst (advance gf now now')))"
  by (simp add: NextID_def split: prod.splits)

lemma NewGlflake_bounded:
  assumes "NewGlflake st now lower16 = Some gf"
  shows "gf_bounded 0 gf"
  using NewGlflake_SomeD [OF assms] toGlflakeTime_bounds
  by (simp add: gf_bounded_def)

lemma NextID_bounded:
  assumes "gf_bounded n gf" "0 \<le> n" "n < 2 ^ 62"
  shows "gf_bounded (n + 1) (fst (NextID gf now now'))"
proof -
  from assms have s: "sequence gf \<le> 255" and e: "sint (elapsedTime gf) < 2 ^ 63 - 1"
    and st: "- 922337203685 \<le> sint (startTime gf)" "sint (startTime gf) \<le> 922337203685"
    and e0: "0 \<le> sint (elapsedTime gf)" and en: "sint (elapsedTime gf) \<le> 2 ^ 41 + n"
    by (simp_all add: gf_bounded_def)
  note step = advance_step [OF s e, of now now']
  have "sint (currentElapsedTime now (startTime gf)) \<le> 2 ^ 41"
    using sint_currentElapsedTime [OF st, of now] toGlflakeTime_bounds [of now] st by simp
  with step(6) en have "sint (elapsedTime (fst (advance gf now now'))) \<le> 2 ^ 41 + (n + 1)"
    using assms(2) by simp
  with step e0 st show ?thesis
    by (simp add: gf_bounded_def NextID_eq)
qed

lemma pack_time:
  assumes "sint (x :: int64) = e * 2 ^ 24 + m * 2 ^ 8 + s"
    and "0 \<le> m" "m < 2 ^ 16" "0 \<le> s" "s < 2 ^ 8"
  shows "drop_bit 24 (sint x) = e"
proof -
  have "e * 2 ^ 24 + m * 2 ^ 8 + s = e * 16777216 + (m * 256 + s)" by simp
  moreover have "0 \<le> m * 256 + s" "m * 256 + s < 16777216" using assms(2-5) by simp_all
  ultimately show ?thesis
    unfolding assms(1) drop_bit_eq_div by simp
qed

lemma toID_fields:
  assumes "sequence gf \<le> 255" "0 \<le> sint (elapsedTime gf)" "toID gf = Inr x"
  shows "0 \<le>s x" and "signed_drop_bit 24 x = elapsedTime gf" and "signed_drop_bit 63 x = 0"
proof -
  note v = toID_value [OF assms]
  have m: "0 \<le> uint (machineID gf)" "uint (machineID gf) < 2 ^ 16"
    using uint_bounded [of "machineID gf"] by simp_all
  from assms(1) have s: "0 \<le> uint (sequence gf)" "uint (sequence gf) < 2 ^ 8"
    by (simp_all add: word_le_def)
  have nn: "0 \<le> id_value gf" using assms(2) m s by (simp add: id_value_def)
  with v show x0: "0 \<le>s x" by (simp add: word_sle_eq)
  have "sint (signed_drop_bit 24 x) = sint (elapsedTime gf)"
    unfolding sint_signed_drop_bit_eq
    by (rule pack_time [OF v [unfolded id_value_def] m s])
  then show "signed_drop_bit 24 x = elapsedTime gf" by (rule signed_word_eqI)
  have "sint x < 2 ^ 63" using sint_lt [of x] by simp
  with nn v have "sint (signed_drop_bit 63 x) = 0"
    unfolding sint_signed_drop_bit_eq drop_bit_eq_div by simp
  then show "signed_drop_bit 63 x = 0" by (metis signed_word_eqI sint_0)
qed

subsection \<open>Runs\<close>

lemma state_after_bounded:
  assumes "gf_bounded n gf" "0 \<le> n" "n + int (length cs) \<le> 2 ^ 62"
  shows "gf_bounded (n + int (length cs)) (state_after gf cs)"
  using assms
proof (induction cs arbitrary: gf n)
  case Nil
  then show ?case by simp
next
  case (Cons c cs)
  obtain now now' where c: "c = (now, now')" by (cases c)
  from Cons.prems have n: "n < 2 ^ 62" by simp
  have b': "gf_bounded (n + 1) (fst (NextID gf now now'))"
    by (rule NextID_bounded [OF Cons.prems(1,2) n])
  from Cons.prems have "0 \<le> n + 1" "n + 1 + int (length cs) \<le> 2 ^ 62" by simp_all
  from Cons.IH [OF b' this] show ?case by (simp add: c ac_simps)
qed

lemma reachable_bounded:
  assumes "NewGlflake st now0 lower16 = Some gf0" and "length cs < 2 ^ 62"
  shows "gf_bounded (int (length cs)) (state_after gf0 cs)" and "int (length cs) < 2 ^ 62"
proof -
  show l: "int (length cs) < 2 ^ 62"
    using assms(2) by (metis of_nat_less_iff of_nat_numeral of_nat_power)
  then have "(0::int) + int (length cs) \<le> 2 ^ 62" by simp
  from state_after_bounded [OF NewGlflake_bounded [OF assms(1)] order_refl this]
  show "gf_bounded (int (length cs)) (state_after gf0 cs)" by simp
qed

lemma reachable_facts:
  assumes "NewGlflake st now0 lower16 = Some gf0" and "length cs < 2 ^ 62"
  defines "gf \<equiv> state_after gf0 cs"
  shows "sequence gf \<le> 255" and "0 \<le> sint (elapsedTime gf)"
    and "sint (elapsedTime gf) < 2 ^ 63 - 1"
    and "- 922337203685 \<le> sint (startTime gf)" and "sint (startTime gf) \<le> 922337203685"
  using reachable_bounded [OF assms(1,2)] by (simp_all add: gf_bounded_def gf_def)

lemma IDs_of_Cons:
  "IDs_of ((g, sl, r) # rs) = (case r of Inl e \<Rightarrow> [] | Inr x \<Rightarrow> [x]) @ IDs_of rs"
  by (cases r) simp_all

lemma run_increasing:
  assumes "gf_bounded n gf" "0 \<le> n" "n + int (length cs) \<le> 2 ^ 62"
  shows "(\<forall>x \<in> set (IDs_of (NextID_run gf cs)). id_value gf < sint x)
       \<and> sorted_wrt (<s) (IDs_of (NextID_run gf cs))
       \<and> (\<forall>g \<in> set (map fst (NextID_run gf cs)). tick_seq_less gf g)
       \<and> sorted_wrt tick_seq_less (map fst (NextID_run gf cs))"
  using assms
proof (induction cs arbitrary: gf n)
  case Nil
  then show ?case by simp
next
  case (Cons c cs)
  obtain now now' where c: "c = (now, now')" by (cases c)
  define gf' where "gf' = fst (advance gf now now')"
  from Cons.prems have n: "n < 2 ^ 62" by simp
  from Cons.prems(1) have s: "sequence gf \<le> 255" and e: "sint (elapsedTime gf) < 2 ^ 63 - 1"
    using n by (simp_all add: gf_bounded_def)
  note step = advance_step [OF s e, of now now', folded gf'_def]
  have b': "gf_bounded (n + 1) gf'"
    using NextID_bounded [OF Cons.prems(1,2) n, of now now'] by (simp add: NextID_eq gf'_def)
  from Cons.prems have "0 \<le> n + 1" "n + 1 + int (length cs) \<le> 2 ^ 62" by simp_all
  note IH = Cons.IH [OF b' this]
  have lt: "id_value gf < id_value gf'"
    by (rule tick_seq_less_value [OF step(1) step(3) [symmetric] s step(2)])
  have run: "NextID_run gf (c # cs) = (gf', snd (advance gf now now'), toID gf') # NextID_run gf' cs"
    by (simp add: c NextID_eq gf'_def Let_def)
  from b' have e0': "0 \<le> sint (elapsedTime gf')" by (simp add: gf_bounded_def)
  have 1: "\<forall>x \<in> set (IDs_of (NextID_run gf (c # cs))). id_value gf < sint x"
    unfolding run IDs_of_Cons using IH lt toID_value [OF step(2) e0']
    by (auto split: sum.splits)
  have 2: "sorted_wrt (<s) (IDs_of (NextID_run gf (c # cs)))"
  proof (cases "toID gf'")
    case (Inl err)
    then show ?thesis unfolding run using IH by simp
  next
    case (Inr x)
    from toID_value [OF step(2) e0' Inr] IH
    have "\<forall>y \<in> set (IDs_of (NextID_run gf' cs)). x <s y"
      by (simp add: word_sless_alt)
    then show ?thesis unfolding run using IH Inr by simp
  qed
  have 3: "\<forall>g \<in> set (map fst (NextID_run gf (c # cs))). tick_seq_less gf g"
    unfolding run using IH step(1) by (auto intro: tick_seq_less_trans)
  have 4: "sorted_wrt tick_seq_less (map fst (NextID_run gf (c # cs)))"
    unfolding run using IH by auto
  from 1 2 3 4 show ?case by blast
qed

lemma sorted_wrt_sless_distinct:
  "sorted_wrt (<s) (xs :: int64 list) \<Longrightarrow> distinct xs"
  by (induction xs) (auto simp add: word_sless_alt)

lemma tick_seq_less_le:
  "tick_seq_less a b \<Longrightarrow> elapsedTime a \<le>s elapsedTime b"
  by (auto simp add: tick_seq_less_def word_sless_alt word_sle_eq)

lemma run_overflow:
  assumes "gf_bounded n gf" "0 \<le> n" "n + int (length cs) \<le> 2 ^ 62"
    and "2 ^ 39 \<le>s elapsedTime gf"
  shows "\<forall>(gf', slept, r) \<in> set (NextID_run gf cs).
           r = Inl OverTimeLimit \<and> 2 ^ 39 \<le>s elapsedTime gf'"
  using assms
proof (induction cs arbitrary: gf n)
  case Nil
  then show ?case by simp
next
  case (Cons c cs)
  obtain now now' where c: "c = (now, now')" by (cases c)
  define gf' where "gf' = fst (advance gf now now')"
  from Cons.prems have n: "n < 2 ^ 62" by simp
  from Cons.prems(1) have s: "sequence gf \<le> 255" and e: "sint (elapsedTime gf) < 2 ^ 63 - 1"
    using n by (simp_all add: gf_bounded_def)
  note step = advance_step [OF s e, of now now', folded gf'_def]
  have b': "gf_bounded (n + 1) gf'"
    using NextID_bounded [OF Cons.prems(1,2) n, of now now'] by (simp add: NextID_eq gf'_def)
  from Cons.prems(4) step(5) have o': "2 ^ 39 \<le>s elapsedTime gf'"
    by (simp add: word_sle_eq)
  from Cons.prems have "0 \<le> n + 1" "n + 1 + int (length cs) \<le> 2 ^ 62" by simp_all
  note IH = Cons.IH [OF b' this o']
  have run: "NextID_run gf (c # cs) = (gf', snd (advance gf now now'), toID gf') # NextID_run gf' cs"
    by (simp add: c NextID_eq gf'_def Let_def)
  show ?case unfolding run using IH o' by (simp add: toID_def)
qed

subsection \<open>Monotonicity\<close>

text \<open>
  C1. For every successfully constructed generator and every list of clock readings
  (one pair per call; any values, so the clock may stand still or run backwards), the
  IDs returned by the successful calls are strictly increasing in the order of emission,
  signed comparison, hence without duplicates; and the pair (elapsed tick, sequence) of
  the instance strictly increases lexicographically with every call, successful or not.
  The list has at most \<open>2^62\<close> calls, so that the 64-bit tick counter cannot wrap.
\<close>

theorem NextID_strictly_increasing:
  assumes "NewGlflake st now0 lower16 = Some gf" and "length cs \<le> 2 ^ 62"
  shows "sorted_wrt (<s) (IDs_of (NextID_run gf cs))
       \<and> distinct (IDs_of (NextID_run gf cs))
       \<and> sorted_wrt tick_seq_less (gf # map fst (NextID_run gf cs))"
proof -
  have "int (length cs) \<le> 2 ^ 62"
    using assms(2) by (metis of_nat_le_iff of_nat_numeral of_nat_power)
  then have "(0::int) + int (length cs) \<le> 2 ^ 62" by simp
  note r = run_increasing [OF NewGlflake_bounded [OF assms(1)] order_refl this]
  from r have "sorted_wrt (<s) (IDs_of (NextID_run gf cs))" by blast
  then show ?thesis using r sorted_wrt_sless_distinct by simp
qed

lemma example_construction:
  "NewGlflake \<lparr>StartTime = 0, MachineID = Some (\<lambda>_. Inr 1), CheckMachineID = None\<rparr>
      0 (Inl MachineIDError)
    = Some \<lparr>startTime = 0, elapsedTime = 0, machineID = 1, sequence = 255\<rparr>"
  by code_simp

theorem NextID_strictly_increasing_witness:
  "NewGlflake \<lparr>StartTime = 0, MachineID = Some (\<lambda>_. Inr 1), CheckMachineID = None\<rparr>
      0 (Inl MachineIDError)
    = Some \<lparr>startTime = 0, elapsedTime = 0, machineID = 1, sequence = 255\<rparr>
   \<and> length [(500000000, 500000000), (500000000, 500000000), (520000000, 520000000 :: int64)]
         \<le> 2 ^ 62
   \<and> IDs_of (NextID_run \<lparr>startTime = 0, elapsedTime = 0, machineID = 1, sequence = 255\<rparr>
         [(500000000, 500000000), (500000000, 500000000), (520000000, 520000000)])
       = [838861056, 838861057, 872415488]
   \<and> sorted_wrt (<s) (IDs_of (NextID_run
         \<lparr>startTime = 0, elapsedTime = 0, machineID = 1, sequence = 255\<rparr>
         [(500000000, 500000000), (500000000, 500000000), (520000000, 520000000)]))
   \<and> distinct (IDs_of (NextID_run
         \<lparr>startTime = 0, elapsedTime = 0, machineID = 1, sequence = 255\<rparr>
         [(500000000, 500000000), (500000000, 500000000), (520000000, 520000000)]))"
proof -
  have l: "length [(500000000, 500000000), (500000000, 500000000), (520000000, 520000000 :: int64)]
         \<le> 2 ^ 62" by simp
  have v: "IDs_of (NextID_run \<lparr>startTime = 0, elapsedTime = 0, machineID = 1, sequence = 255\<rparr>
         [(500000000, 500000000), (500000000, 500000000), (520000000, 520000000)])
       = [838861056, 838861057, 872415488]" by code_simp
  from NextID_strictly_increasing [OF example_construction l] example_construction l v
  show ?thesis by blast
qed

subsection \<open>Overflow of the time field\<close>

text \<open>
  C3. On an instance reached from a successful construction (by fewer than \<open>2^62\<close>
  calls, under any clock readings), \<open>NextID\<close> returns the error exactly when the stored
  elapsed tick, after the update of the call, is at least \<open>2^39\<close>. Every ID it returns is
  non-negative (bit 63 is 0, and \<open>Decompose\<close> gives msb 0), and its time field is the
  stored elapsed tick itself, which lies in \<open>[0, 2^39)\<close>: the field is never wrapped.
\<close>

theorem NextID_overflow_iff:
  assumes "NewGlflake st now0 lower16 = Some gf0" and "length cs < 2 ^ 62"
    and "gf = state_after gf0 cs"
    and "NextID gf now now' = (gf', slept, r)"
  shows "(r = Inl OverTimeLimit \<longleftrightarrow> 2 ^ 39 \<le>s elapsedTime gf')
       \<and> (\<forall>x. r = Inr x \<longrightarrow>
             0 \<le>s x \<and> \<not> bit x 63 \<and> Decompose x ''msb'' = Some 0
             \<and> Decompose x ''time'' = Some (elapsedTime gf')
             \<and> 0 \<le>s elapsedTime gf' \<and> elapsedTime gf' <s 2 ^ 39)"
proof -
  note f = reachable_facts [OF assms(1,2), folded assms(3)]
  from assms(4) have gf': "gf' = fst (advance gf now now')" and r: "r = toID gf'"
    by (auto simp add: NextID_eq)
  note step = advance_step [OF f(1) f(3), of now now', folded gf']
  from step(5) f(2) have e0: "0 \<le> sint (elapsedTime gf')" by simp
  have 1: "r = Inl OverTimeLimit \<longleftrightarrow> 2 ^ 39 \<le>s elapsedTime gf'"
    by (simp add: r toID_def)
  have 2: "0 \<le>s x \<and> \<not> bit x 63 \<and> Decompose x ''msb'' = Some 0
             \<and> Decompose x ''time'' = Some (elapsedTime gf')
             \<and> 0 \<le>s elapsedTime gf' \<and> elapsedTime gf' <s 2 ^ 39" if "r = Inr x" for x
  proof -
    from that have t: "toID gf' = Inr x" by (simp add: r)
    note fl = toID_fields [OF step(2) e0 t]
    from fl(1) have "\<not> sint x < 0" by (simp add: word_sle_eq)
    then have "\<not> bit x 63" using bit_last_iff [of x] by simp
    moreover from t have "elapsedTime gf' <s 2 ^ 39"
      by (auto simp add: toID_def word_sle_eq word_sless_alt split: if_splits)
    moreover have "0 \<le>s elapsedTime gf'" using e0 by (simp add: word_sle_eq)
    ultimately show ?thesis using fl
      by (simp add: Decompose_def)
  qed
  from 1 2 show ?thesis by blast
qed

theorem NextID_overflow_iff_witness:
  "NewGlflake \<lparr>StartTime = 0, MachineID = Some (\<lambda>_. Inr 1), CheckMachineID = None\<rparr>
      0 (Inl MachineIDError)
    = Some \<lparr>startTime = 0, elapsedTime = 0, machineID = 1, sequence = 255\<rparr>
   \<and> length ([] :: (int64 \<times> int64) list) < 2 ^ 62
   \<and> NextID \<lparr>startTime = 0, elapsedTime = 0, machineID = 1, sequence = 255\<rparr>
         500000000 500000000
       = (\<lparr>startTime = 0, elapsedTime = 50, machineID = 1, sequence = 0\<rparr>, None,
          Inr 838861056)
   \<and> \<not> 2 ^ 39 \<le>s elapsedTime \<lparr>startTime = 0, elapsedTime = 50, machineID = 1, sequence = 0\<rparr>
   \<and> 0 \<le>s (838861056 :: int64) \<and> \<not> bit (838861056 :: int64) 63
   \<and> Decompose 838861056 ''msb'' = Some 0
   \<and> Decompose 838861056 ''time'' = Some 50"
proof -
  have l: "length ([] :: (int64 \<times> int64) list) < 2 ^ 62" by simp
  have s: "\<lparr>startTime = 0, elapsedTime = 0, machineID = 1, sequence = 255\<rparr>
      = state_after \<lparr>startTime = 0, elapsedTime = 0, machineID = 1, sequence = 255\<rparr> []"
    by simp
  have n: "NextID \<lparr>startTime = 0, elapsedTime = 0, machineID = 1, sequence = 255\<rparr>
         500000000 500000000
       = (\<lparr>startTime = 0, elapsedTime = 50, machineID = 1, sequence = 0\<rparr>, None,
          Inr 838861056)"
    by code_simp
  from NextID_overflow_iff [OF example_construction l s n] example_construction l n
  show ?thesis by simp
qed

text \<open>
  C10. On an instance reached from a successful construction, under any clock readings
  (fewer than \<open>2^62\<close> calls in all, so that the 64-bit counter cannot wrap): the stored
  elapsed tick never decreases from call to call; every call, the failing ones too,
  strictly advances the stored pair (elapsed tick, sequence), because the state is
  updated before \<open>toID\<close> checks the tick; and once the stored tick is at least \<open>2^39\<close>,
  every later call returns the error and leaves the tick at least \<open>2^39\<close>.
\<close>

theorem NextID_overflow_absorbing:
  assumes "NewGlflake st now0 lower16 = Some gf0" and "length cs + length cs' < 2 ^ 62"
  shows "sorted_wrt (\<lambda>a b. elapsedTime a \<le>s elapsedTime b)
           (state_after gf0 cs # map fst (NextID_run (state_after gf0 cs) cs'))
       \<and> sorted_wrt tick_seq_less
           (state_after gf0 cs # map fst (NextID_run (state_after gf0 cs) cs'))
       \<and> (2 ^ 39 \<le>s elapsedTime (state_after gf0 cs) \<longrightarrow>
            (\<forall>(gf', slept, r) \<in> set (NextID_run (state_after gf0 cs) cs').
               r = Inl OverTimeLimit \<and> 2 ^ 39 \<le>s elapsedTime gf'))"
proof -
  define gf where "gf = state_after gf0 cs"
  from assms(2) have l: "length cs < 2 ^ 62" by simp
  note b = reachable_bounded [OF assms(1) l, folded gf_def]
  have "int (length cs + length cs') < 2 ^ 62"
    using assms(2) by (metis of_nat_less_iff of_nat_numeral of_nat_power)
  then have n: "int (length cs) + int (length cs') \<le> 2 ^ 62" by simp
  have n0: "0 \<le> int (length cs)" by simp
  note r = run_increasing [OF b(1) n0 n]
  from r have t: "sorted_wrt tick_seq_less (gf # map fst (NextID_run gf cs'))" by simp
  then have "sorted_wrt (\<lambda>a b. elapsedTime a \<le>s elapsedTime b)
     (gf # map fst (NextID_run gf cs'))"
    by (rule sorted_wrt_mono_rel [rotated]) (rule tick_seq_less_le)
  with t run_overflow [OF b(1) n0 n] show ?thesis unfolding gf_def by blast
qed

theorem NextID_overflow_absorbing_witness:
  "NewGlflake \<lparr>StartTime = 0, MachineID = Some (\<lambda>_. Inr 1), CheckMachineID = None\<rparr>
      0 (Inl MachineIDError)
    = Some \<lparr>startTime = 0, elapsedTime = 0, machineID = 1, sequence = 255\<rparr>
   \<and> length [(6000000000000000000, 6000000000000000000 :: int64)]
       + length [(0, 0), (7000000000000000000, 7000000000000000000 :: int64)] < 2 ^ 62
   \<and> state_after \<lparr>startTime = 0, elapsedTime = 0, machineID = 1, sequence = 255\<rparr>
         [(6000000000000000000, 6000000000000000000)]
       = \<lparr>startTime = 0, elapsedTime = 600000000000, machineID = 1, sequence = 0\<rparr>
   \<and> 2 ^ 39 \<le>s elapsedTime
         \<lparr>startTime = 0, elapsedTime = 600000000000, machineID = 1, sequence = 0\<rparr>
   \<and> NextID_run \<lparr>startTime = 0, elapsedTime = 600000000000, machineID = 1, sequence = 0\<rparr>
         [(0, 0), (7000000000000000000, 7000000000000000000)]
       = [(\<lparr>startTime = 0, elapsedTime = 600000000000, machineID = 1, sequence = 1\<rparr>,
           None, Inl OverTimeLimit),
          (\<lparr>startTime = 0, elapsedTime = 700000000000, machineID = 1, sequence = 0\<rparr>,
           None, Inl OverTimeLimit)]
   \<and> sorted_wrt tick_seq_less
        (state_after \<lparr>startTime = 0, elapsedTime = 0, machineID = 1, sequence = 255\<rparr>
           [(6000000000000000000, 6000000000000000000)]
         # map fst (NextID_run
             (state_after \<lparr>startTime = 0, elapsedTime = 0, machineID = 1, sequence = 255\<rparr>
                [(6000000000000000000, 6000000000000000000)])
             [(0, 0), (7000000000000000000, 7000000000000000000)]))"
proof -
  have l: "length [(6000000000000000000, 6000000000000000000 :: int64)]
       + length [(0, 0), (7000000000000000000, 7000000000000000000 :: int64)] < 2 ^ 62"
    by simp
  have s: "state_after \<lparr>startTime = 0, elapsedTime = 0, machineID = 1, sequence = 255\<rparr>
         [(6000000000000000000, 6000000000000000000)]
       = \<lparr>startTime = 0, elapsedTime = 600000000000, machineID = 1, sequence = 0\<rparr>"
    by code_simp
  have o: "2 ^ 39 \<le>s elapsedTime
         \<lparr>startTime = 0, elapsedTime = 600000000000, machineID = 1, sequence = 0\<rparr>"
    by simp
  have r: "NextID_run \<lparr>startTime = 0, elapsedTime = 600000000000, machineID = 1, sequence = 0\<rparr>
         [(0, 0), (7000000000000000000, 7000000000000000000)]
       = [(\<lparr>startTime = 0, elapsedTime = 600000000000, machineID = 1, sequence = 1\<rparr>,
           None, Inl OverTimeLimit),
          (\<lparr>startTime = 0, elapsedTime = 700000000000, machineID = 1, sequence = 0\<rparr>,
           None, Inl OverTimeLimit)]"
    by code_simp
  from NextID_overflow_absorbing [OF example_construction l] example_construction l s o r
  show ?thesis by blast
qed

subsection \<open>Exhaustion of the sequence\<close>

text \<open>Calls within a tick that the stored tick has reached only count the sequence up.\<close>

lemma state_after_same_tick:
  assumes "\<not> elapsedTime gf <s currentElapsedTime now (startTime gf)"
    and "unat (sequence gf) + k \<le> 255"
  shows "state_after gf (replicate k (now, now')) = gf\<lparr>sequence := sequence gf + of_nat k\<rparr>"
  using assms
proof (induction k arbitrary: gf)
  case 0
  show ?case by simp
next
  case (Suc k)
  from Suc.prems(2) have le: "sequence gf \<le> 255" and ne: "sequence gf \<noteq> 255"
    by (simp_all add: word_le_nat_alt seq_eq_255)
  define gf1 where "gf1 = gf\<lparr>sequence := sequence gf + 1\<rparr>"
  have adv: "fst (advance gf now now') = gf1"
  proof (rule advance_cases [OF le, of now now'], goal_cases tick same wrap)
    case tick
    with Suc.prems(1) show ?thesis by simp
  next
    case same
    then show ?thesis by (simp add: gf1_def)
  next
    case wrap
    with ne show ?thesis by simp
  qed
  from le ne have u: "unat (sequence gf + 1) = unat (sequence gf) + 1"
    by (simp add: word_le_nat_alt seq_eq_255 unat_word_ariths)
  from Suc.prems(1) have 1: "\<not> elapsedTime gf1 <s currentElapsedTime now (startTime gf1)"
    by (simp add: gf1_def)
  from Suc.prems(2) u have 2: "unat (sequence gf1) + k \<le> 255"
    by (simp add: gf1_def)
  have "state_after gf (replicate (Suc k) (now, now')) = state_after gf1 (replicate k (now, now'))"
    by (simp add: NextID_eq adv)
  also have "\<dots> = gf1\<lparr>sequence := sequence gf1 + of_nat k\<rparr>"
    by (rule Suc.IH [OF 1 2])
  also have "\<dots> = gf\<lparr>sequence := sequence gf + of_nat (Suc k)\<rparr>"
    by (simp add: gf1_def add.assoc)
  finally show ?case .
qed

text \<open>
  A generator that has issued 256 IDs within tick 5: the first call adopts the tick, the
  others count the sequence up to 255.
\<close>

lemma example_exhausted:
  "state_after \<lparr>startTime = 0, elapsedTime = 0, machineID = 1, sequence = 255\<rparr>
     (replicate 256 (50000000, 50000000))
   = \<lparr>startTime = 0, elapsedTime = 5, machineID = 1, sequence = 255\<rparr>"
proof -
  have r: "replicate 256 (50000000, 50000000 :: int64)
      = (50000000, 50000000) # replicate 255 (50000000, 50000000)"
    by (simp add: replicate_Suc [symmetric] del: replicate_Suc)
  have n: "fst (NextID \<lparr>startTime = 0, elapsedTime = 0, machineID = 1, sequence = 255\<rparr>
        50000000 50000000)
      = \<lparr>startTime = 0, elapsedTime = 5, machineID = 1, sequence = 0\<rparr>"
    by code_simp
  have c: "\<not> elapsedTime \<lparr>startTime = 0, elapsedTime = 5, machineID = 1, sequence = 0\<rparr>
      <s currentElapsedTime 50000000
           (startTime \<lparr>startTime = 0, elapsedTime = 5, machineID = 1, sequence = 0\<rparr>)"
    by code_simp
  have u: "unat (sequence \<lparr>startTime = 0, elapsedTime = 5, machineID = 1, sequence = 0\<rparr>)
      + 255 \<le> 255"
    by simp
  show ?thesis
    unfolding r by (simp add: n state_after_same_tick [OF c u])
qed

text \<open>
  C4, as stated, fails: when the sequence wraps, the stored tick is set to the stored
  tick plus one, not to the current elapsed tick plus one. A generator issues 256 IDs
  within tick 5, which exhausts the sequence; the clock is then set back and reads
  tick 3. The next \<open>NextID\<close> wraps the sequence and stores tick 6, not tick 4, and sleeps
  for 30 ms.
\<close>

theorem NextID_sequence_exhausted_counterexample:
  "NewGlflake \<lparr>StartTime = 0, MachineID = Some (\<lambda>_. Inr 1), CheckMachineID = None\<rparr>
      0 (Inl MachineIDError)
     = Some \<lparr>startTime = 0, elapsedTime = 0, machineID = 1, sequence = 255\<rparr>
   \<and> state_after \<lparr>startTime = 0, elapsedTime = 0, machineID = 1, sequence = 255\<rparr>
         (replicate 256 (50000000, 50000000))
       = \<lparr>startTime = 0, elapsedTime = 5, machineID = 1, sequence = 255\<rparr>
   \<and> currentElapsedTime 30000000 0 = 3
   \<and> \<not> elapsedTime \<lparr>startTime = 0, elapsedTime = 5, machineID = 1, sequence = 255\<rparr>
         <s currentElapsedTime 30000000 0
   \<and> (sequence \<lparr>startTime = 0, elapsedTime = 5, machineID = 1, sequence = 255\<rparr> + 1)
         AND maskSequence = 0
   \<and> NextID \<lparr>startTime = 0, elapsedTime = 5, machineID = 1, sequence = 255\<rparr>
         30000000 30000000
       = (\<lparr>startTime = 0, elapsedTime = 6, machineID = 1, sequence = 0\<rparr>,
          Some 30000000, Inr 100663552)
   \<and> elapsedTime \<lparr>startTime = 0, elapsedTime = 6, machineID = 1, sequence = 0\<rparr>
       \<noteq> currentElapsedTime 30000000 0 + 1"
proof -
  have "currentElapsedTime 30000000 0 = 3
   \<and> \<not> elapsedTime \<lparr>startTime = 0, elapsedTime = 5, machineID = 1, sequence = 255\<rparr>
         <s currentElapsedTime 30000000 0
   \<and> (sequence \<lparr>startTime = 0, elapsedTime = 5, machineID = 1, sequence = 255\<rparr> + 1)
         AND maskSequence = 0
   \<and> NextID \<lparr>startTime = 0, elapsedTime = 5, machineID = 1, sequence = 255\<rparr>
         30000000 30000000
       = (\<lparr>startTime = 0, elapsedTime = 6, machineID = 1, sequence = 0\<rparr>,
          Some 30000000, Inr 100663552)
   \<and> elapsedTime \<lparr>startTime = 0, elapsedTime = 6, machineID = 1, sequence = 0\<rparr>
       \<noteq> currentElapsedTime 30000000 0 + 1"
    by code_simp
  with example_construction example_exhausted show ?thesis by blast
qed

text \<open>
  C4, amended. On an instance reached from a successful construction, when the wall
  clock has not advanced past the stored tick and the 8-bit sequence increment wraps to
  0, the stored tick is advanced by exactly 1 beyond the stored tick; this is 1 beyond
  the current elapsed tick when the two were equal, and in every case beyond the current
  elapsed tick. The call sleeps for \<open>sleepTime\<close> of the difference between the new stored
  tick and the current elapsed tick. When that difference is at most 9 * 10^11 ticks,
  so that the \<open>int64\<close> duration does not overflow, and the clock reading inside
  \<open>sleepTime\<close> is not in an earlier tick than the first reading of the call, the
  duration is positive and ends at or after the start of the new stored tick: the call
  blocks until the wall clock has reached that tick. When both readings lie in the same
  tick, it ends exactly at the start of that tick.
\<close>

theorem NextID_sequence_exhausted:
  assumes "NewGlflake st now0 lower16 = Some gf0" and "length cs < 2 ^ 62"
    and "gf = state_after gf0 cs"
    and "current = currentElapsedTime now (startTime gf)"
    and "\<not> elapsedTime gf <s current"
    and "(sequence gf + 1) AND maskSequence = 0"
    and "NextID gf now now' = (gf', slept, r)"
  shows "sequence gf' = 0
       \<and> elapsedTime gf' = elapsedTime gf + 1
       \<and> sint (elapsedTime gf') = sint (elapsedTime gf) + 1
       \<and> (elapsedTime gf = current \<longrightarrow> elapsedTime gf' = current + 1)
       \<and> current <s elapsedTime gf'
       \<and> slept = Some (sleepTime (elapsedTime gf' - current) now')
       \<and> (toGlflakeTime now \<le>s toGlflakeTime now'
            \<and> sint (elapsedTime gf') - sint current \<le> 900000000000
          \<longrightarrow> (\<exists>d. slept = Some d \<and> 0 <s d
                 \<and> (sint (startTime gf) + sint (elapsedTime gf')) * 10000000
                     \<le> sint now' + sint d))
       \<and> (toGlflakeTime now' = toGlflakeTime now
            \<and> sint (elapsedTime gf') - sint current \<le> 900000000000
          \<longrightarrow> (\<exists>d. slept = Some d \<and> 0 <s d
                 \<and> sint now' + sint d
                     = (sint (startTime gf) + sint (elapsedTime gf')) * 10000000))"
proof -
  note f = reachable_facts [OF assms(1,2), folded assms(3)]
  from f(1) assms(6) have s255: "sequence gf = 255"
    using seq_next_zero_iff [of "sequence gf"] by (simp add: maskSequence_255)
  have adv: "advance gf now now' =
         (gf\<lparr>sequence := 0, elapsedTime := elapsedTime gf + 1\<rparr>,
          Some (sleepTime (elapsedTime gf + 1 - current) now'))"
    using assms(5) s255
    by (simp add: advance_def Let_def maskSequence_255 assms(4))
  from assms(7) have gf': "gf' = gf\<lparr>sequence := 0, elapsedTime := elapsedTime gf + 1\<rparr>"
    and sl: "slept = Some (sleepTime (elapsedTime gf + 1 - current) now')"
    by (auto simp add: NextID_eq adv)
  have e': "elapsedTime gf' = elapsedTime gf + 1" by (simp add: gf')
  have se': "sint (elapsedTime gf') = sint (elapsedTime gf) + 1"
    unfolding e' by (rule sint_succ64 [OF f(3)])
  have cur: "sint current = sint (toGlflakeTime now) - sint (startTime gf)"
    unfolding assms(4) by (rule sint_currentElapsedTime [OF f(4,5)])
  from assms(5) have ge: "sint current \<le> sint (elapsedTime gf)"
    by (simp add: word_sless_alt)
  with se' have lt: "current <s elapsedTime gf'" by (simp add: word_sless_alt)
  define d where "d = sleepTime (elapsedTime gf' - current) now'"
  have sl': "slept = Some d" by (simp add: sl d_def e')
  have sleep: "0 < sint d \<and> sint now' + sint d
        = (sint (toGlflakeTime now') - sint (toGlflakeTime now)
           + (sint (startTime gf) + sint (elapsedTime gf'))) * 10000000"
    if small: "sint (elapsedTime gf') - sint current \<le> 900000000000"
  proof -
    define ov where "ov = elapsedTime gf' - current"
    have cb: "- 1844674407370 \<le> sint current" "sint current \<le> 1844674407370"
      using cur toGlflakeTime_bounds [of now] f(4,5) by simp_all
    have eb: "0 \<le> sint (elapsedTime gf')" "sint (elapsedTime gf') \<le> 2744674407370"
      using se' f(2) small cb by simp_all
    have "sint ov = sint (elapsedTime gf') - sint current"
      unfolding ov_def using cb eb by (intro sint_diff64) simp_all
    with ge se' small have ov: "1 \<le> sint ov" "sint ov \<le> 900000000000"
      and oveq: "sint ov = sint (elapsedTime gf') - sint current" by simp_all
    from ov have ov': "- 900000000000 \<le> sint ov" by simp
    note v = sint_sleepTime [OF ov' ov(2), of now']
    have fr: "sint now' smod 10000000 \<in> {- \<bar>10000000\<bar> + 1..\<bar>10000000\<bar> - 1}"
      by (rule smod_int_range) simp
    then have "sint now' - sint (toGlflakeTime now') * 10000000 \<le> 9999999"
      by (simp add: smod_unit_eq)
    with v ov(1) have pos: "0 < sint (sleepTime ov now')" by simp
    have "sint now' + sint (sleepTime ov now')
        = (sint (toGlflakeTime now') + sint ov) * 10000000"
      unfolding v by (simp add: algebra_simps)
    also have "\<dots> = (sint (toGlflakeTime now') - sint (toGlflakeTime now)
           + (sint (startTime gf) + sint (elapsedTime gf'))) * 10000000"
      unfolding oveq cur by simp
    finally show ?thesis using pos by (simp add: d_def ov_def)
  qed
  have later: "\<exists>d. slept = Some d \<and> 0 <s d
      \<and> (sint (startTime gf) + sint (elapsedTime gf')) * 10000000 \<le> sint now' + sint d"
    if "toGlflakeTime now \<le>s toGlflakeTime now'"
      and small: "sint (elapsedTime gf') - sint current \<le> 900000000000"
  proof -
    from that(1) have "0 \<le> sint (toGlflakeTime now') - sint (toGlflakeTime now)"
      by (simp add: word_sle_eq)
    then have "(sint (startTime gf) + sint (elapsedTime gf')) * 10000000
        \<le> (sint (toGlflakeTime now') - sint (toGlflakeTime now)
           + (sint (startTime gf) + sint (elapsedTime gf'))) * 10000000"
      by simp
    with sleep [OF small] sl' show ?thesis by (simp add: word_sless_alt)
  qed
  have same: "\<exists>d. slept = Some d \<and> 0 <s d
      \<and> sint now' + sint d = (sint (startTime gf) + sint (elapsedTime gf')) * 10000000"
    if "toGlflakeTime now' = toGlflakeTime now"
      and small: "sint (elapsedTime gf') - sint current \<le> 900000000000"
    using sleep [OF small] sl' that(1) by (simp add: word_sless_alt)
  have "sequence gf' = 0" by (simp add: gf')
  moreover have "elapsedTime gf = current \<longrightarrow> elapsedTime gf' = current + 1"
    by (simp add: e')
  ultimately show ?thesis using e' se' lt sl later same by (simp add: e')
qed

theorem NextID_sequence_exhausted_witness:
  "NewGlflake \<lparr>StartTime = 0, MachineID = Some (\<lambda>_. Inr 1), CheckMachineID = None\<rparr>
      0 (Inl MachineIDError)
    = Some \<lparr>startTime = 0, elapsedTime = 0, machineID = 1, sequence = 255\<rparr>
   \<and> length (replicate 256 (50000000, 50000000 :: int64)) < 2 ^ 62
   \<and> state_after \<lparr>startTime = 0, elapsedTime = 0, machineID = 1, sequence = 255\<rparr>
         (replicate 256 (50000000, 50000000))
       = \<lparr>startTime = 0, elapsedTime = 5, machineID = 1, sequence = 255\<rparr>
   \<and> currentElapsedTime 50000000 0 = 5
   \<and> \<not> elapsedTime \<lparr>startTime = 0, elapsedTime = 5, machineID = 1, sequence = 255\<rparr>
         <s currentElapsedTime 50000000 0
   \<and> (sequence \<lparr>startTime = 0, elapsedTime = 5, machineID = 1, sequence = 255\<rparr> + 1)
         AND maskSequence = 0
   \<and> NextID \<lparr>startTime = 0, elapsedTime = 5, machineID = 1, sequence = 255\<rparr>
         50000000 53000000
       = (\<lparr>startTime = 0, elapsedTime = 6, machineID = 1, sequence = 0\<rparr>,
          Some 7000000, Inr 100663552)
   \<and> toGlflakeTime 53000000 = toGlflakeTime 50000000
   \<and> sint (elapsedTime \<lparr>startTime = 0, elapsedTime = 6, machineID = 1, sequence = 0\<rparr>)
         - sint (5 :: int64) \<le> 900000000000
   \<and> 0 <s (7000000 :: int64)
   \<and> sint (53000000 :: int64) + sint (7000000 :: int64)
       = (sint (0 :: int64) + sint (6 :: int64)) * 10000000"
proof -
  have l: "length (replicate 256 (50000000, 50000000 :: int64)) < 2 ^ 62" by simp
  have c: "(5 :: int64) = currentElapsedTime 50000000
      (startTime \<lparr>startTime = 0, elapsedTime = 5, machineID = 1, sequence = 255\<rparr>)"
    by code_simp
  have g: "\<not> elapsedTime \<lparr>startTime = 0, elapsedTime = 5, machineID = 1, sequence = 255\<rparr>
         <s 5" by simp
  have w: "(sequence \<lparr>startTime = 0, elapsedTime = 5, machineID = 1, sequence = 255\<rparr> + 1)
         AND maskSequence = 0" by code_simp
  have n: "NextID \<lparr>startTime = 0, elapsedTime = 5, machineID = 1, sequence = 255\<rparr>
         50000000 53000000
       = (\<lparr>startTime = 0, elapsedTime = 6, machineID = 1, sequence = 0\<rparr>,
          Some 7000000, Inr 100663552)" by code_simp
  have t: "toGlflakeTime 53000000 = toGlflakeTime 50000000" by code_simp
  have c': "currentElapsedTime 50000000 0 = 5" by code_simp
  from NextID_sequence_exhausted
    [OF example_construction l example_exhausted [symmetric] c g w n]
    example_construction l example_exhausted c' g w n t
  show ?thesis by simp
qed

text \<open>
  The two conditions on the sleep are needed. When the clock reading inside \<open>sleepTime\<close>
  is in an earlier tick than the first reading, the sleep ends before the new stored
  tick: after 256 IDs in tick 5, with readings 50 ms and then 49 ms, the call stores
  tick 6 and sleeps 1 ms, until 50 ms. When the difference exceeds 922337203685 ticks,
  the duration overflows: on a fresh instance with epoch 0 whose clock reads the least
  \<open>int64\<close>, the call stores tick 1 and hands \<open>time.Sleep\<close> a negative duration.
\<close>

lemma NextID_sleep_conditions:
  "toGlflakeTime 49000000 <s toGlflakeTime 50000000"
  "NextID \<lparr>startTime = 0, elapsedTime = 5, machineID = 1, sequence = 255\<rparr> 50000000 49000000
     = (\<lparr>startTime = 0, elapsedTime = 6, machineID = 1, sequence = 0\<rparr>,
        Some 1000000, Inr 100663552)"
  "NextID \<lparr>startTime = 0, elapsedTime = 0, machineID = 1, sequence = 255\<rparr>
       (- 9223372036854775808) (- 9223372036854775808)
     = (\<lparr>startTime = 0, elapsedTime = 1, machineID = 1, sequence = 0\<rparr>,
        Some (- 9223372036844775808), Inr 16777472)"
  "(- 9223372036844775808 :: int64) <s 0"
  by code_simp+

section \<open>Properties of the codecs\<close>

subsection \<open>Digits\<close>

lemma lsd_digits_less: "n < b \<Longrightarrow> lsd_digits b n = [n]"
  by (subst lsd_digits.simps) simp

lemma lsd_digits_ge:
  "2 \<le> b \<Longrightarrow> b \<le> n \<Longrightarrow> lsd_digits b n = (n mod b) # lsd_digits b (n div b)"
  by (subst lsd_digits.simps) simp

lemma lsd_digits_bound:
  assumes "2 \<le> b"
  shows "\<forall>d \<in> set (lsd_digits b n). d < b"
proof (induction n rule: less_induct)
  case (less n)
  show ?case
  proof (cases "n < b")
    case True
    then show ?thesis by (simp add: lsd_digits_less)
  next
    case False
    then have ge: "b \<le> n" by simp
    from assms ge have "n div b < n" by simp
    then have IH: "\<forall>d \<in> set (lsd_digits b (n div b)). d < b" by (rule less.IH)
    have "n mod b < b" using assms by simp
    with IH show ?thesis by (simp add: lsd_digits_ge [OF assms ge])
  qed
qed

lemma lsd_digits_value:
  assumes "2 \<le> b"
  shows "foldr (\<lambda>d v. v * b + d) (lsd_digits b n) 0 = n"
proof (induction n rule: less_induct)
  case (less n)
  show ?case
  proof (cases "n < b")
    case True
    then show ?thesis by (simp add: lsd_digits_less)
  next
    case False
    then have ge: "b \<le> n" by simp
    from assms ge have "n div b < n" by simp
    then have IH: "foldr (\<lambda>d v. v * b + d) (lsd_digits b (n div b)) 0 = n div b"
      by (rule less.IH)
    show ?thesis by (simp add: lsd_digits_ge [OF assms ge] IH)
  qed
qed

lemma lsd_digits_length:
  assumes "2 \<le> b"
  shows "n < b ^ k \<Longrightarrow> 0 < k \<Longrightarrow> length (lsd_digits b n) \<le> k"
proof (induction n arbitrary: k rule: less_induct)
  case (less n)
  show ?case
  proof (cases "n < b")
    case True
    with less.prems(2) show ?thesis by (simp add: lsd_digits_less Suc_leI)
  next
    case False
    then have ge: "b \<le> n" by simp
    from less.prems(2) obtain j where k: "k = Suc j" by (cases k) auto
    have "j \<noteq> 0"
    proof
      assume "j = 0"
      with less.prems(1) k have "n < b" by simp
      with False show False by simp
    qed
    then have j: "0 < j" by simp
    from less.prems(1) k have "n < b ^ j * b" by (simp add: mult.commute)
    then have d: "n div b < b ^ j"
      using assms by (simp add: less_mult_imp_div_less)
    from assms ge have "n div b < n" by simp
    from less.IH [OF this d j] show ?thesis
      by (simp add: lsd_digits_ge [OF assms ge] k)
  qed
qed

lemma lsd_digits_nonempty: "lsd_digits b n \<noteq> []"
  by (subst lsd_digits.simps) simp

subsection \<open>The decode table\<close>

lemma index_of_None_iff: "index_of xs c = None \<longleftrightarrow> c \<notin> set xs"
  by (induction xs) auto

lemma index_of_nth:
  assumes "distinct xs" "i < length xs"
  shows "index_of xs (xs ! i) = Some i"
  using assms
proof (induction xs arbitrary: i)
  case Nil
  then show ?case by simp
next
  case (Cons x xs)
  then show ?case by (cases i) auto
qed

lemma index_of_Some_less: "index_of xs c = Some i \<Longrightarrow> i < length xs"
  by (induction xs arbitrary: i) (auto split: if_splits)

lemma digit_values_map:
  assumes "distinct al" "\<forall>d \<in> set ds. d < length al"
  shows "digit_values al (map (\<lambda>d. al ! d) ds) = Some ds"
  using assms(2) by (induction ds) (simp_all add: index_of_nth [OF assms(1)])

lemma digit_values_None:
  assumes "c \<in> set s" "c \<notin> set al"
  shows "digit_values al s = None"
  using assms
proof (induction s)
  case Nil
  then show ?case by simp
next
  case (Cons a s)
  from Cons.prems(2) have n: "index_of al c = None" by (simp add: index_of_None_iff)
  show ?case
  proof (cases "a = c")
    case True
    with n show ?thesis by simp
  next
    case False
    with Cons have "digit_values al s = None" by simp
    then show ?thesis by (simp split: option.splits)
  qed
qed

lemma digit_values_append:
  "digit_values al (s @ t) =
     (case digit_values al s of
        None \<Rightarrow> None
      | Some a \<Rightarrow> map_option ((@) a) (digit_values al t))"
proof (induction s)
  case Nil
  show ?case by (cases "digit_values al t") simp_all
next
  case (Cons a s)
  show ?case
  proof (cases "index_of al a")
    case None
    then show ?thesis by simp
  next
    case (Some d)
    show ?thesis
      by (cases "digit_values al s"; cases "digit_values al t") (simp_all add: Some Cons)
  qed
qed

subsection \<open>Round trip of the positional notation\<close>

lemma decode_encode_base:
  assumes "distinct al" "2 \<le> length al"
  shows "decode_base al (encode_base al n) = Some n"
proof -
  let ?b = "length al"
  have "digit_values al (map (\<lambda>d. al ! d) (rev (lsd_digits ?b n))) = Some (rev (lsd_digits ?b n))"
    by (rule digit_values_map [OF assms(1)]) (use lsd_digits_bound [OF assms(2)] in simp)
  moreover have "foldl (\<lambda>v d. v * ?b + d) 0 (rev (lsd_digits ?b n)) = n"
    using lsd_digits_value [OF assms(2), of n] by (simp add: foldl_conv_foldr)
  ultimately show ?thesis
    by (simp add: decode_base_def encode_base_def rev_map)
qed

lemma encode_base_nonempty: "encode_base al n \<noteq> []"
  by (simp add: encode_base_def lsd_digits_nonempty)

lemma parse_encode_base:
  assumes "distinct al" "2 \<le> length al" "n < 2 ^ 63"
  shows "parse_base al (encode_base al n) = Inr (of_nat n)"
  using assms(3)
  by (simp add: parse_base_def encode_base_nonempty decode_encode_base [OF assms(1,2)])

lemma parse_base_reject:
  assumes "c \<in> set s" "c \<notin> set al"
  shows "parse_base al s = Inl (ParseError s)"
  by (simp add: parse_base_def decode_base_def digit_values_None [OF assms])

lemma decode_base_zeros:
  assumes "distinct al" "0 < length al"
  shows "decode_base al (replicate k (al ! 0) @ s) = decode_base al s"
proof -
  have z: "digit_values al (replicate k (al ! 0)) = Some (replicate k 0)"
    by (induction k) (simp_all add: index_of_nth [OF assms])
  have f: "foldl (\<lambda>v d. v * length al + d) 0 (replicate k 0 @ ds)
      = foldl (\<lambda>v d. v * length al + d) 0 ds" for ds
    by (induction k) simp_all
  show ?thesis
    by (cases "digit_values al s")
      (simp_all add: decode_base_def digit_values_append z f del: foldl_append)
qed

lemma ID_value_valid:
  assumes "0 \<le>s x"
  shows "ID_value x < 2 ^ 63" and "of_nat (ID_value x) = x"
proof -
  from assms have nn: "0 \<le> sint x" by (simp add: word_sle_eq)
  have "sint x < 2 ^ 63" using sint_lt [of x] by simp
  with nn show "ID_value x < 2 ^ 63" by (simp add: ID_value_def nat_less_iff)
  from nn have "(of_nat (nat (sint x)) :: int64) = word_of_int (sint x)"
    by simp
  then show "of_nat (ID_value x) = x" by (simp add: ID_value_def)
qed

subsection \<open>The alphabet tables\<close>

lemma alphabet2_props: "distinct alphabet2" "length alphabet2 = 2" "alphabet2 ! 0 = CHR ''0''"
  by (simp_all add: alphabet2_def)

lemma alphabet10_props: "distinct alphabet10" "length alphabet10 = 10"
  by (simp_all add: alphabet10_def)

lemma alphabet32_props: "distinct alphabet32" "length alphabet32 = 32"
  by (simp_all add: alphabet32_def)

lemma alphabet36_props: "distinct alphabet36" "length alphabet36 = 36"
  by (simp_all add: alphabet36_def)

lemma alphabet58_props: "distinct alphabet58" "length alphabet58 = 58"
  by (simp_all add: alphabet58_def)

lemma alphabet64_props:
  "distinct alphabet64" "length alphabet64 = 64" "CHR ''='' \<notin> set alphabet64"
  by (simp_all add: alphabet64_def)

lemma alphabet10_no_minus: "CHR ''-'' \<notin> set alphabet10"
  by (simp add: alphabet10_def)

subsection \<open>Base64\<close>

lemma index64:
  assumes "i < 64"
  shows "index_of alphabet64 (alphabet64 ! i) = Some i" and "alphabet64 ! i \<noteq> CHR ''=''"
proof -
  from assms have l: "i < length alphabet64" by (simp add: alphabet64_props)
  show "index_of alphabet64 (alphabet64 ! i) = Some i"
    by (rule index_of_nth [OF alphabet64_props(1) l])
  from l have "alphabet64 ! i \<in> set alphabet64" by (rule nth_mem)
  with alphabet64_props(3) show "alphabet64 ! i \<noteq> CHR ''=''" by auto
qed

lemma sextet_bounds:
  fixes x y z :: nat
  assumes "x < 256" "y < 256" "z < 256"
  shows "x div 4 < 64" "(x mod 4) * 16 < 64" "(x mod 4) * 16 + y div 16 < 64"
    "(y mod 16) * 4 < 64" "(y mod 16) * 4 + z div 64 < 64" "z mod 64 < 64"
  using assms by simp_all

lemma div_mod_digit:
  fixes a r n :: nat
  assumes "r < n"
  shows "(a * n + r) div n = a" and "(a * n + r) mod n = r"
  using assms by simp_all

lemma sextet_bytes:
  fixes x y z :: nat
  assumes "y < 256" "z < 256"
  shows "x div 4 * 4 + ((x mod 4) * 16) div 16 = x"
    and "x div 4 * 4 + ((x mod 4) * 16 + y div 16) div 16 = x"
    and "(((x mod 4) * 16 + y div 16) mod 16) * 16 + ((y mod 16) * 4) div 4 = y"
    and "(((x mod 4) * 16 + y div 16) mod 16) * 16 + ((y mod 16) * 4 + z div 64) div 4 = y"
    and "(((y mod 16) * 4 + z div 64) mod 4) * 64 + z mod 64 = z"
proof -
  from assms have y: "y div 16 < 16" and z: "z div 64 < 4" by simp_all
  show "x div 4 * 4 + ((x mod 4) * 16) div 16 = x" by simp
  show "x div 4 * 4 + ((x mod 4) * 16 + y div 16) div 16 = x"
    by (simp only: div_mod_digit [OF y]) simp
  show "(((x mod 4) * 16 + y div 16) mod 16) * 16 + ((y mod 16) * 4) div 4 = y"
    by (simp only: div_mod_digit [OF y]) simp
  show "(((x mod 4) * 16 + y div 16) mod 16) * 16 + ((y mod 16) * 4 + z div 64) div 4 = y"
    by (simp only: div_mod_digit [OF y] div_mod_digit [OF z]) simp
  show "(((y mod 16) * 4 + z div 64) mod 4) * 64 + z mod 64 = z"
    by (simp only: div_mod_digit [OF z]) simp
qed

lemma base64_decode_pad2:
  assumes "i < 64" "j < 64"
  shows "base64_decode [alphabet64 ! i, alphabet64 ! j, CHR ''='', CHR ''='']
       = Some [char_of (i * 4 + j div 16)]"
  by (simp add: index64 [OF assms(1)] index64 [OF assms(2)])

lemma base64_decode_pad1:
  assumes "i < 64" "j < 64" "k < 64"
  shows "base64_decode [alphabet64 ! i, alphabet64 ! j, alphabet64 ! k, CHR ''='']
       = Some [char_of (i * 4 + j div 16), char_of ((j mod 16) * 16 + k div 4)]"
  by (simp add: index64 [OF assms(1)] index64 [OF assms(2)] index64 [OF assms(3)])

lemma base64_decode_quad:
  assumes "i < 64" "j < 64" "k < 64" "l < 64"
  shows "base64_decode (alphabet64 ! i # alphabet64 ! j # alphabet64 ! k # alphabet64 ! l # rest)
       = map_option
           (\<lambda>bs. char_of (i * 4 + j div 16) # char_of ((j mod 16) * 16 + k div 4)
                   # char_of ((k mod 4) * 64 + l) # bs)
           (base64_decode rest)"
  by (simp add: index64 [OF assms(1)] index64 [OF assms(2)] index64 [OF assms(3)]
      index64 [OF assms(4)])

lemma base64_round_trip: "base64_decode (base64_encode bs) = Some bs"
proof (induction bs rule: base64_encode.induct)
  case 1
  show ?case by simp
next
  case (2 a)
  have x: "(of_char a :: nat) < 256" by simp
  note b = sextet_bounds [OF x x x]
  have "base64_decode (base64_encode [a])
      = Some [char_of (of_char a div 4 * 4 + ((of_char a mod 4) * 16) div 16 :: nat)]"
    unfolding base64_encode.simps Let_def by (rule base64_decode_pad2 [OF b(1) b(2)])
  then show ?case by (simp only: sextet_bytes(1) [OF x x] char_of_char)
next
  case (3 a b)
  have x: "(of_char a :: nat) < 256" and y: "(of_char b :: nat) < 256" by simp_all
  note bd = sextet_bounds [OF x y y]
  have "base64_decode (base64_encode [a, b])
      = Some [char_of (of_char a div 4 * 4 + ((of_char a mod 4) * 16 + of_char b div 16) div 16 :: nat),
              char_of ((((of_char a mod 4) * 16 + of_char b div 16) mod 16) * 16
                       + ((of_char b mod 16) * 4) div 4 :: nat)]"
    unfolding base64_encode.simps Let_def by (rule base64_decode_pad1 [OF bd(1) bd(3) bd(4)])
  then show ?case by (simp only: sextet_bytes(2,3) [OF y y] char_of_char)
next
  case (4 a b c rest)
  have x: "(of_char a :: nat) < 256" and y: "(of_char b :: nat) < 256"
    and z: "(of_char c :: nat) < 256" by simp_all
  note bd = sextet_bounds [OF x y z]
  have "base64_decode (base64_encode (a # b # c # rest))
      = map_option
          (\<lambda>bs. char_of (of_char a div 4 * 4 + ((of_char a mod 4) * 16 + of_char b div 16) div 16 :: nat)
             # char_of ((((of_char a mod 4) * 16 + of_char b div 16) mod 16) * 16
                       + ((of_char b mod 16) * 4 + of_char c div 64) div 4 :: nat)
             # char_of ((((of_char b mod 16) * 4 + of_char c div 64) mod 4) * 64
                       + of_char c mod 64 :: nat) # bs)
          (base64_decode (base64_encode rest))"
    unfolding base64_encode.simps Let_def append_Cons append_Nil
    by (rule base64_decode_quad [OF bd(1) bd(3) bd(5) bd(6)])
  then show ?case
    by (simp only: sextet_bytes(2,4,5) [OF y z] char_of_char 4 option.map)
qed




lemma byte_step:
  "push_bit 8 (drop_bit (n + 8) x) OR ucast (ucast (drop_bit n x) :: 8 word) = drop_bit n (x :: int64)"
proof (rule bit_word_eqI)
  fix m
  assume "m < LENGTH(64)"
  then have m: "m < 64" by simp
  show "bit (push_bit 8 (drop_bit (n + 8) x) OR ucast (ucast (drop_bit n x) :: 8 word)) m
      \<longleftrightarrow> bit (drop_bit n x) m"
  proof (cases "m < 8")
    case True
    then show ?thesis by (simp add: bit_simps)
  next
    case False
    then have "n + 8 + (m - 8) = n + m" by simp
    with False m show ?thesis by (simp add: bit_simps)
  qed
qed

lemma upt_8: "[0..<8] = [0, 1, 2, 3, 4, 5, 6, 7 :: nat]"
  by (simp add: upt_rec)

lemma IntBytes_round_trip: "ParseIntBytes (IntBytes x) = x"
proof -
  have 0: "drop_bit 64 x = 0" by (simp add: drop_bit_word_beyond)
  have "ParseIntBytes (IntBytes x)
      = push_bit 8 (push_bit 8 (push_bit 8 (push_bit 8 (push_bit 8 (push_bit 8 (push_bit 8
          (push_bit 8 (drop_bit (56 + 8) x) OR ucast (ucast (drop_bit 56 x) :: 8 word))
          OR ucast (ucast (drop_bit 48 x) :: 8 word))
          OR ucast (ucast (drop_bit 40 x) :: 8 word))
          OR ucast (ucast (drop_bit 32 x) :: 8 word))
          OR ucast (ucast (drop_bit 24 x) :: 8 word))
          OR ucast (ucast (drop_bit 16 x) :: 8 word))
          OR ucast (ucast (drop_bit 8 x) :: 8 word))
          OR ucast (ucast (drop_bit 0 x) :: 8 word)"
    unfolding ParseIntBytes_def IntBytes_def upt_8
    by (simp add: 0 del: push_bit_eq_mult)
  also have "\<dots> = x"
    using byte_step [of 56 x] byte_step [of 48 x] byte_step [of 40 x] byte_step [of 32 x]
      byte_step [of 24 x] byte_step [of 16 x] byte_step [of 8 x] byte_step [of 0 x]
    by (simp del: push_bit_eq_mult)
  finally show ?thesis .
qed

subsection \<open>Round trips on valid IDs\<close>

lemma encode_base_set:
  assumes "2 \<le> length al"
  shows "set (encode_base al n) \<subseteq> set al"
  using lsd_digits_bound [OF assms, of n] by (auto simp add: encode_base_def)

lemma pow63_less_pow10: "(2 :: nat) ^ 63 < 10 ^ 19"
  by simp

lemma encode_base10_length:
  assumes "n < 2 ^ 63"
  shows "length (encode_base alphabet10 n) \<le> 19"
proof -
  from assms pow63_less_pow10 have "n < 10 ^ 19" by (rule less_trans)
  then have "length (lsd_digits 10 n) \<le> 19"
    by (intro lsd_digits_length) simp_all
  then show ?thesis by (simp add: encode_base_def alphabet10_props)
qed

lemma ParseString_encode:
  assumes "n < 2 ^ 63"
  shows "ParseString (encode_base alphabet10 n) = Inr (of_nat n)"
proof -
  have al: "distinct alphabet10" "2 \<le> length alphabet10" by (simp_all add: alphabet10_props)
  obtain c ds where e: "encode_base alphabet10 n = c # ds"
    using encode_base_nonempty [of alphabet10 n] by (cases "encode_base alphabet10 n") auto
  with encode_base_set [OF al(2), of n] have "c \<in> set alphabet10" by auto
  with alphabet10_no_minus have "c \<noteq> CHR ''-''" by auto
  then have "ParseString (c # ds) = parse_base alphabet10 (c # ds)"
    by (simp add: ParseString_def)
  then show ?thesis
    using parse_encode_base [OF al assms] by (simp add: e)
qed

lemma String_valid:
  assumes "0 \<le>s x"
  shows "String x = encode_base alphabet10 (ID_value x)"
  using assms by (simp add: String_def ID_value_def)

lemma String_round_trip:
  assumes "0 \<le>s x"
  shows "ParseString (String x) = Inr x"
  using ParseString_encode [OF ID_value_valid(1) [OF assms]]
  by (simp add: String_valid [OF assms] ID_value_valid(2) [OF assms])

lemma Base2_round_trip:
  assumes "0 \<le>s x"
  shows "ParseBase2 (Base2 x) = Inr x"
proof -
  have al: "distinct alphabet2" "2 \<le> length alphabet2" "0 < length alphabet2"
    by (simp_all add: alphabet2_props)
  define ds where "ds = encode_base alphabet2 (ID_value x)"
  define k where "k = 63 - length ds"
  have ne: "replicate k CHR ''0'' @ ds \<noteq> []"
    using encode_base_nonempty [of alphabet2 "ID_value x"] by (simp add: ds_def)
  have "decode_base alphabet2 (replicate k (alphabet2 ! 0) @ ds) = decode_base alphabet2 ds"
    by (rule decode_base_zeros [OF al(1,3)])
  also have "\<dots> = Some (ID_value x)"
    unfolding ds_def by (rule decode_encode_base [OF al(1,2)])
  finally have "decode_base alphabet2 (replicate k CHR ''0'' @ ds) = Some (ID_value x)"
    by (simp add: alphabet2_props)
  with ne have "parse_base alphabet2 (replicate k CHR ''0'' @ ds) = Inr x"
    using ID_value_valid [OF assms] by (simp add: parse_base_def)
  then show ?thesis
    by (simp add: ParseBase2_def Base2_def Let_def ds_def k_def)
qed

lemma Base32_round_trip:
  assumes "0 \<le>s x"
  shows "ParseBase32 (Base32 x) = Inr x"
  using parse_encode_base [of alphabet32 "ID_value x"] ID_value_valid [OF assms]
  by (simp add: ParseBase32_def Base32_def alphabet32_props)

lemma Base36_round_trip:
  assumes "0 \<le>s x"
  shows "ParseBase36 (Base36 x) = Inr x"
  using parse_encode_base [of alphabet36 "ID_value x"] ID_value_valid [OF assms]
  by (simp add: ParseBase36_def Base36_def alphabet36_props)

lemma Base58_round_trip:
  assumes "0 \<le>s x"
  shows "ParseBase58 (Base58 x) = Inr x"
  using parse_encode_base [of alphabet58 "ID_value x"] ID_value_valid [OF assms]
  by (simp add: ParseBase58_def Base58_def alphabet58_props)

lemma Base64_round_trip:
  assumes "0 \<le>s x"
  shows "ParseBase64 (Base64 x) = Inr x"
  by (simp add: ParseBase64_def Base64_def base64_round_trip String_round_trip [OF assms])

lemma Bytes_round_trip:
  assumes "0 \<le>s x"
  shows "ParseBytes (Bytes x) = Inr x"
proof -
  have "length (String x) \<le> 19"
    unfolding String_valid [OF assms]
    by (rule encode_base10_length [OF ID_value_valid(1) [OF assms]])
  then show ?thesis
    by (simp add: ParseBytes_def Bytes_def String_round_trip [OF assms])
qed

subsection \<open>The vectors of id_test.go\<close>

lemma test_ParseBase32:
  "ParseBase32 ''b8wjm1zroyyyy'' = Inr 1427970479175499776"
proof -
  have "digit_values alphabet32 ''b8wjm1zroyyyy'' = Some [1, 7, 20, 9, 11, 18, 23, 4, 16, 0, 0, 0, 0]"
    by (simp add: alphabet32_def)
  then show ?thesis
    by (simp add: ParseBase32_def parse_base_def decode_base_def alphabet32_props)
qed

lemma test_ParseBase58:
  "ParseBase58 ''4jgmnx8Js8A'' = Inr 1428076403798048768"
proof -
  have "digit_values alphabet58 ''4jgmnx8Js8A'' = Some [3, 18, 15, 20, 21, 31, 7, 42, 26, 7, 34]"
    by (simp add: alphabet58_def)
  then show ?thesis
    by (simp add: ParseBase58_def parse_base_def decode_base_def alphabet58_props)
qed

lemma test_ParseBase36:
  "ParseBase36 ''8hgmw4blvlkw'' = Inr 1116817865006120960"
  "ParseBase36 ''68h5gmw443blv2lk1w'' = Inl (ParseError ''68h5gmw443blv2lk1w'')"
proof -
  have "digit_values alphabet36 ''8hgmw4blvlkw'' = Some [8, 17, 16, 22, 32, 4, 11, 21, 31, 21, 20, 32]"
    by (simp add: alphabet36_def)
  then show "ParseBase36 ''8hgmw4blvlkw'' = Inr 1116817865006120960"
    by (simp add: ParseBase36_def parse_base_def decode_base_def alphabet36_props)
  have "digit_values alphabet36 ''68h5gmw443blv2lk1w'' = Some [6, 8, 17, 5, 16, 22, 32, 4, 4, 3, 11, 21, 31, 2, 21, 20, 1, 32]"
    by (simp add: alphabet36_def)
  then show "ParseBase36 ''68h5gmw443blv2lk1w'' = Inl (ParseError ''68h5gmw443blv2lk1w'')"
    by (simp add: ParseBase36_def parse_base_def decode_base_def alphabet36_props)
qed

lemma test_ParseString:
  "ParseString ''1116766490855473152'' = Inr 1116766490855473152"
  "ParseString ''1112316766490855473152'' = Inl (ParseError ''1112316766490855473152'')"
proof -
  have "digit_values alphabet10 ''1116766490855473152'' = Some [1, 1, 1, 6, 7, 6, 6, 4, 9, 0, 8, 5, 5, 4, 7, 3, 1, 5, 2]"
    by (simp add: alphabet10_def)
  then show "ParseString ''1116766490855473152'' = Inr 1116766490855473152"
    by (simp add: ParseString_def parse_base_def decode_base_def alphabet10_props)
  have "digit_values alphabet10 ''1112316766490855473152'' = Some [1, 1, 1, 2, 3, 1, 6, 7, 6, 6, 4, 9, 0, 8, 5, 5, 4, 7, 3, 1, 5, 2]"
    by (simp add: alphabet10_def)
  then show "ParseString ''1112316766490855473152''
      = Inl (ParseError ''1112316766490855473152'')"
    by (simp add: ParseString_def parse_base_def decode_base_def alphabet10_props)
qed

lemma test_ParseBase2:
  "ParseBase2 ''111101111111101110110101100101001000000000000000000000000000'' = Inr 1116817224745615360"
  "ParseBase2 ''1112316766490855473152'' = Inl (ParseError ''1112316766490855473152'')"
proof -
  have "digit_values alphabet2 ''111101111111101110110101100101001000000000000000000000000000'' = Some [1, 1, 1, 1, 0, 1, 1, 1, 1, 1, 1, 1, 1, 0, 1, 1, 1, 0, 1, 1, 0, 1, 0, 1, 1, 0, 0, 1, 0, 1, 0, 0, 1, 0, 0, 0, 0, 0, 0, 0, 0, 0, 0, 0, 0, 0, 0, 0, 0, 0, 0, 0, 0, 0, 0, 0, 0, 0, 0, 0]"
    by (simp add: alphabet2_def)
  then show "ParseBase2 ''111101111111101110110101100101001000000000000000000000000000'' = Inr 1116817224745615360"
    by (simp add: ParseBase2_def parse_base_def decode_base_def alphabet2_props)
  have "CHR ''2'' \<in> set ''1112316766490855473152''" "CHR ''2'' \<notin> set alphabet2"
    by (simp_all add: alphabet2_def)
  then show "ParseBase2 ''1112316766490855473152'' = Inl (ParseError ''1112316766490855473152'')"
    unfolding ParseBase2_def by (rule parse_base_reject)
qed

lemma test_Base64:
  "Base64 1116819494660997120 = ''MTExNjgxOTQ5NDY2MDk5NzEyMA==''"
  "ParseBase64 ''MTExNjgxOTQ5NDY2MDk5NzEyMA=='' = Inr 1116819494660997120"
  "Base64 1931386430720256 = ''MTkzMTM4NjQzMDcyMDI1Ng==''"
proof -
  have s: "String 1116819494660997120 = ''1116819494660997120''"
    by (simp add: String_def encode_base_def alphabet10_def lsd_digits_less lsd_digits_ge
        word_sle_eq)
  show e: "Base64 1116819494660997120 = ''MTExNjgxOTQ5NDY2MDk5NzEyMA==''"
    unfolding Base64_def s by (simp add: alphabet64_def)
  have "0 \<le>s (1116819494660997120 :: ID)" by (simp add: word_sle_eq)
  from Base64_round_trip [OF this]
  show "ParseBase64 ''MTExNjgxOTQ5NDY2MDk5NzEyMA=='' = Inr 1116819494660997120"
    unfolding e .
  have t: "String 1931386430720256 = ''1931386430720256''"
    by (simp add: String_def encode_base_def alphabet10_def lsd_digits_less lsd_digits_ge
        word_sle_eq)
  show "Base64 1931386430720256 = ''MTkzMTM4NjQzMDcyMDI1Ng==''"
    unfolding Base64_def t by (simp add: alphabet64_def)
qed

lemma test_IntBytes:
  "IntBytes 13587 = [0, 0, 0, 0, 0, 0, 0x35, 0x13]"
  "ParseIntBytes [0xf, 0x7f, 0xc0, 0xfc, 0x2f, 0x80, 0x0, 0x0] = 1116823421972381696"
  by (simp_all add: IntBytes_def ParseIntBytes_def upt_8 drop_bit_eq_div)

lemma test_UnmarshalJSON:
  "UnmarshalJSON [CHR 0x22, CHR ''1'', CHR ''3'', CHR ''5'', CHR ''8'', CHR ''7'', CHR 0x22]
     = Inr 13587"
proof -
  have "digit_values alphabet10 ''13587'' = Some [1, 3, 5, 8, 7]"
    by (simp add: alphabet10_def)
  then have "ParseString ''13587'' = Inr 13587"
    by (simp add: ParseString_def parse_base_def decode_base_def alphabet10_props)
  moreover have "quoted_decimal
      [CHR 0x22, CHR ''1'', CHR ''3'', CHR ''5'', CHR ''8'', CHR ''7'', CHR 0x22]"
    by (simp add: quoted_decimal_def decimal_text_def alphabet10_def)
  ultimately show ?thesis by (simp add: UnmarshalJSON_def)
qed

subsection \<open>The claims about the codecs\<close>

text \<open>
  C2. For every valid ID, that is every non-negative 64-bit value (\<open>NextID\<close> returns no
  other), decoding the encoding gives the ID back, for the decimal integer, the decimal
  string, the binary string, base32, base36, base58, base64 and the two byte forms.
\<close>

theorem codec_round_trip:
  assumes "0 \<le>s x"
  shows "ParseInt64 (Int64 x) = x
       \<and> ParseString (String x) = Inr x
       \<and> ParseBase2 (Base2 x) = Inr x
       \<and> ParseBase32 (Base32 x) = Inr x
       \<and> ParseBase36 (Base36 x) = Inr x
       \<and> ParseBase58 (Base58 x) = Inr x
       \<and> ParseBase64 (Base64 x) = Inr x
       \<and> ParseBytes (Bytes x) = Inr x
       \<and> ParseIntBytes (IntBytes x) = x"
  using String_round_trip [OF assms] Base2_round_trip [OF assms] Base32_round_trip [OF assms]
    Base36_round_trip [OF assms] Base58_round_trip [OF assms] Base64_round_trip [OF assms]
    Bytes_round_trip [OF assms] IntBytes_round_trip [of x]
  by (simp add: ParseInt64_def Int64_def)

theorem codec_round_trip_witness:
  "0 \<le>s (838861056 :: ID)
   \<and> ParseInt64 (Int64 838861056) = 838861056
   \<and> ParseString (String 838861056) = Inr 838861056
   \<and> ParseBase2 (Base2 838861056) = Inr 838861056
   \<and> ParseBase32 (Base32 838861056) = Inr 838861056
   \<and> ParseBase36 (Base36 838861056) = Inr 838861056
   \<and> ParseBase58 (Base58 838861056) = Inr 838861056
   \<and> ParseBase64 (Base64 838861056) = Inr 838861056
   \<and> ParseBytes (Bytes 838861056) = Inr 838861056
   \<and> ParseIntBytes (IntBytes 838861056) = 838861056"
proof -
  have v: "0 \<le>s (838861056 :: ID)" by (simp add: word_sle_eq)
  from codec_round_trip [OF v] v show ?thesis by blast
qed






lemma String_13587: "String 13587 = ''13587''"
  by (simp add: String_def encode_base_def alphabet10_def lsd_digits_less lsd_digits_ge
      word_sle_eq)

lemma decimal_text_encode:
  assumes "0 \<le>s x"
  shows "decimal_text (String x)"
proof -
  have al: "2 \<le> length alphabet10" by (simp add: alphabet10_props)
  obtain c ds where e: "String x = c # ds"
    using encode_base_nonempty [of alphabet10 "ID_value x"]
    by (cases "String x") (auto simp add: String_valid [OF assms])
  from encode_base_set [OF al, of "ID_value x"]
  have sub: "set (String x) \<subseteq> set alphabet10" by (simp add: String_valid [OF assms])
  with e have "c \<in> set alphabet10" by auto
  with alphabet10_no_minus have "c \<noteq> CHR ''-''" by auto
  with sub e show ?thesis
    by (auto simp add: decimal_text_def list_all_iff)
qed

lemma MarshalJSON_quoted:
  assumes "0 \<le>s x"
  shows "quoted_decimal (MarshalJSON x)" and "butlast (tl (MarshalJSON x)) = String x"
proof -
  show b: "butlast (tl (MarshalJSON x)) = String x"
    by (simp add: MarshalJSON_def butlast_append)
  show "quoted_decimal (MarshalJSON x)"
    unfolding quoted_decimal_def b using decimal_text_encode [OF assms]
    by (simp add: MarshalJSON_def)
qed

text \<open>
  C8. \<open>MarshalJSON\<close> of an ID is a double quote, the decimal text of the ID and a double
  quote; for a valid ID that text is a non-empty string of decimal digits whose value
  is the ID, and \<open>UnmarshalJSON\<close> gives the ID back. \<open>UnmarshalJSON\<close> fails with a
  \<open>JSONSyntaxError\<close> that carries its input whenever the input is not a quoted decimal
  string. \<open>MarshalJSON\<close> of 13587 is the seven characters \<open>"13587"\<close>, and
  \<open>UnmarshalJSON\<close> of the one character \<open>1\<close> fails.
\<close>

theorem JSON_codec:
  "MarshalJSON x = CHR 0x22 # String x @ [CHR 0x22]
   \<and> (0 \<le>s x \<longrightarrow> String x \<noteq> [] \<and> set (String x) \<subseteq> set alphabet10
                \<and> decode_base alphabet10 (String x) = Some (ID_value x)
                \<and> UnmarshalJSON (MarshalJSON x) = Inr x)
   \<and> (\<not> quoted_decimal b \<longrightarrow> UnmarshalJSON b = Inl (JSONSyntaxError b))
   \<and> MarshalJSON 13587
       = [CHR 0x22, CHR ''1'', CHR ''3'', CHR ''5'', CHR ''8'', CHR ''7'', CHR 0x22]
   \<and> UnmarshalJSON ''1'' = Inl (JSONSyntaxError ''1'')"
proof -
  have al: "distinct alphabet10" "2 \<le> length alphabet10" by (simp_all add: alphabet10_props)
  have 1: "String x \<noteq> [] \<and> set (String x) \<subseteq> set alphabet10
         \<and> decode_base alphabet10 (String x) = Some (ID_value x)
         \<and> UnmarshalJSON (MarshalJSON x) = Inr x" if v: "0 \<le>s x"
    using encode_base_nonempty [of alphabet10 "ID_value x"]
      encode_base_set [OF al(2), of "ID_value x"]
      decode_encode_base [OF al, of "ID_value x"]
      MarshalJSON_quoted [OF v] String_round_trip [OF v]
    by (simp add: String_valid [OF v] UnmarshalJSON_def)
  have 2: "UnmarshalJSON b = Inl (JSONSyntaxError b)" if "\<not> quoted_decimal b"
    using that by (simp add: UnmarshalJSON_def)
  have 3: "MarshalJSON 13587
       = [CHR 0x22, CHR ''1'', CHR ''3'', CHR ''5'', CHR ''8'', CHR ''7'', CHR 0x22]"
    by (simp add: MarshalJSON_def String_13587)
  have 4: "UnmarshalJSON ''1'' = Inl (JSONSyntaxError ''1'')"
    by (simp add: UnmarshalJSON_def quoted_decimal_def)
  from 1 2 3 4 show ?thesis by (simp add: MarshalJSON_def)
qed

theorem JSON_codec_witness:
  "0 \<le>s (13587 :: ID)
   \<and> UnmarshalJSON (MarshalJSON 13587) = Inr 13587
   \<and> \<not> quoted_decimal [CHR 0x22, CHR ''i'', CHR ''n'', CHR ''v'', CHR ''a'', CHR ''l'',
         CHR ''i'', CHR ''d'']
   \<and> UnmarshalJSON [CHR 0x22, CHR ''i'', CHR ''n'', CHR ''v'', CHR ''a'', CHR ''l'',
         CHR ''i'', CHR ''d'']
       = Inl (JSONSyntaxError [CHR 0x22, CHR ''i'', CHR ''n'', CHR ''v'', CHR ''a'', CHR ''l'',
         CHR ''i'', CHR ''d''])"
proof -
  have v: "0 \<le>s (13587 :: ID)" by (simp add: word_sle_eq)
  have q: "\<not> quoted_decimal [CHR 0x22, CHR ''i'', CHR ''n'', CHR ''v'', CHR ''a'', CHR ''l'',
         CHR ''i'', CHR ''d'']"
    by (simp add: quoted_decimal_def)
  from JSON_codec [of 13587 "[CHR 0x22, CHR ''i'', CHR ''n'', CHR ''v'', CHR ''a'', CHR ''l'',
         CHR ''i'', CHR ''d'']"] v q
  show ?thesis by blast
qed

end
